theory Spec2Isabelle
  imports Complex_Main "HOL-Library.AList"
begin

section \<open>Data model (shared/schema.ts)\<close>

text \<open>
  The tables of \<^verbatim>\<open>shared/schema.ts\<close> as records. Field names carry a prefix where two
  tables use the same column name (\<^verbatim>\<open>id\<close>, \<^verbatim>\<open>name\<close>, \<^verbatim>\<open>type\<close>, \<^verbatim>\<open>status\<close>).
  Timestamps (\<^verbatim>\<open>Date\<close>) are natural numbers, nullable columns are options, and the
  integer counters of a job are natural numbers (the store only ever writes
  \<^verbatim>\<open>recordIds.length\<close> and loop counters into them).
\<close>

record ApiConfiguration =
  cfg_id :: string
  email :: string
  apiKey :: string
  isConnected :: bool
  lastConnected :: "nat option"

record DnsRecord =
  rec_id :: string
  zoneId :: string
  zoneName :: string
  rec_name :: string
  rec_type :: string
  content :: string
  ttl :: int
  proxied :: bool
  locked :: bool

record MigrationJob =
  job_id :: string
  oldIp :: string
  newIp :: string
  totalRecords :: nat
  completedRecords :: nat
  failedRecords :: nat
  job_status :: string
  createdAt :: nat
  completedAt :: "nat option"

record MigrationRecordStatus =
  rs_id :: string
  jobId :: string
  recordId :: string
  rs_status :: string
  errorMessage :: "string option"
  updatedAt :: nat

text \<open>\<^verbatim>\<open>Omit<ActivityLogEntry, 'id'>\<close>, the argument of \<^verbatim>\<open>addActivityLogEntry\<close>.\<close>

record ActivityInput =
  in_timestamp :: nat
  in_type :: string
  in_message :: string
  in_details :: "string option"

record ActivityLogEntry =
  log_id :: string
  log_timestamp :: nat
  log_type :: string
  log_message :: string
  log_details :: "string option"

record MigrationProgress =
  p_jobId :: string
  p_totalRecords :: nat
  p_completedRecords :: nat
  p_failedRecords :: nat
  processingRecords :: int
  p_status :: string
  progressPercentage :: "int option"

section \<open>The system state\<close>

text \<open>
  The private fields of \<^verbatim>\<open>MemStorage\<close> that the migration engine, the progress
  reader, the configuration endpoint and the activity log use (\<^verbatim>\<open>zones\<close> and
  \<^verbatim>\<open>backups\<close> are written by other endpoints only). A JavaScript \<^verbatim>\<open>Map\<close> keeps
  its keys in insertion order, so it is an association list: \<^const>\<open>map_of\<close> is
  \<^verbatim>\<open>get\<close>, \<^const>\<open>AList.update\<close> is \<^verbatim>\<open>set\<close> (an existing key keeps its place, a new
  key goes to the end) and \<^term>\<open>map snd\<close> is \<^verbatim>\<open>Array.from(values())\<close>.

  Two more fields record the interaction with the outside world: \<open>tick\<close> counts the
  calls made so far that read the clock, draw a UUID or reach the DNS provider, and
  \<open>cfCalls\<close> is the list of \<^verbatim>\<open>PATCH\<close> requests sent to the provider so far.
\<close>

record PatchRequest =
  patch_zoneId :: string
  patch_recordId :: string
  patch_type :: string
  patch_name :: string
  patch_content :: string
  patch_ttl :: int
  patch_proxied :: bool

record system =
  apiConfiguration :: "ApiConfiguration option"
  dnsRecords :: "(string \<times> DnsRecord) list"
  migrationJobs :: "(string \<times> MigrationJob) list"
  migrationRecordStatuses :: "(string \<times> MigrationRecordStatus) list"
  activityLog :: "ActivityLogEntry list"
  tick :: nat
  cfCalls :: "PatchRequest list"

text \<open>
  A value caught by \<^verbatim>\<open>catch (error: any)\<close>; the argument is \<^verbatim>\<open>error?.message\<close>
  (\<open>None\<close> when it is undefined).
\<close>

datatype thrown = Thrown "string option"

text \<open>
  The outside world: what \<^verbatim>\<open>randomUUID()\<close> and \<^verbatim>\<open>new Date()\<close> return and whether
  the provider accepts a \<^verbatim>\<open>PATCH\<close> (\<open>None\<close>) or the call throws, each as a
  function of the number of the interaction.
\<close>

record env =
  randomUUID :: "nat \<Rightarrow> string"
  newDate :: "nat \<Rightarrow> nat"
  updateDnsRecord :: "nat \<Rightarrow> PatchRequest \<Rightarrow> thrown option"

datatype 'a response = Json200 'a | Fail nat string

datatype json = JString string | JBool bool | JDate nat | JNull

section \<open>MemStorage (server/storage.ts)\<close>

text \<open>
  Each method takes the state and returns the new one. A method that calls
  \<^verbatim>\<open>randomUUID()\<close> or \<^verbatim>\<open>new Date()\<close> takes the value that call returns as its first
  argument.
\<close>

definition getApiConfiguration :: "system \<Rightarrow> ApiConfiguration option" where
  "getApiConfiguration s = apiConfiguration s"

definition saveDnsRecords :: "DnsRecord list \<Rightarrow> system \<Rightarrow> system" where
  "saveDnsRecords records s =
     s\<lparr>dnsRecords := foldl (\<lambda>m r. AList.update (rec_id r) r m) [] records\<rparr>"

definition getDnsRecords :: "system \<Rightarrow> DnsRecord list" where
  "getDnsRecords s = map snd (dnsRecords s)"

definition createMigrationJob ::
  "string \<Rightarrow> nat \<Rightarrow> string \<Rightarrow> string \<Rightarrow> nat \<Rightarrow> system \<Rightarrow> MigrationJob \<times> system" where
  "createMigrationJob uuid now oldv newv n s =
     (let migrationJob = \<lparr>job_id = uuid, oldIp = oldv, newIp = newv, totalRecords = n,
                           completedRecords = 0, failedRecords = 0,
                           job_status = ''pending'', createdAt = now, completedAt = None\<rparr>
      in (migrationJob,
          s\<lparr>migrationJobs := AList.update uuid migrationJob (migrationJobs s)\<rparr>))"

definition getMigrationJob :: "string \<Rightarrow> system \<Rightarrow> MigrationJob option" where
  "getMigrationJob jid s = map_of (migrationJobs s) jid"

definition updateMigrationJobProgress :: "string \<Rightarrow> nat \<Rightarrow> nat \<Rightarrow> system \<Rightarrow> system" where
  "updateMigrationJobProgress jid completed failed s =
     (case map_of (migrationJobs s) jid of
        None \<Rightarrow> s
      | Some job \<Rightarrow>
          s\<lparr>migrationJobs :=
              AList.update jid (job\<lparr>completedRecords := completed, failedRecords := failed\<rparr>)
                (migrationJobs s)\<rparr>)"

definition updateMigrationJobStatus :: "nat \<Rightarrow> string \<Rightarrow> string \<Rightarrow> system \<Rightarrow> system" where
  "updateMigrationJobStatus now jid status s =
     (case map_of (migrationJobs s) jid of
        None \<Rightarrow> s
      | Some job \<Rightarrow>
          s\<lparr>migrationJobs :=
              AList.update jid
                (job\<lparr>job_status := status,
                     completedAt := (if status = ''completed'' \<or> status = ''failed''
                                     then Some now else completedAt job)\<rparr>)
                (migrationJobs s)\<rparr>)"

definition saveMigrationRecordStatus :: "MigrationRecordStatus list \<Rightarrow> system \<Rightarrow> system" where
  "saveMigrationRecordStatus statuses s =
     s\<lparr>migrationRecordStatuses :=
         foldl (\<lambda>m st. AList.update (rs_id st) st m) (migrationRecordStatuses s) statuses\<rparr>"

text \<open>\<^verbatim>\<open>errorMessage || null\<close>: an absent or empty message is stored as null.\<close>

definition orNull :: "string option \<Rightarrow> string option" where
  "orNull m = (case m of None \<Rightarrow> None | Some t \<Rightarrow> if t = [] then None else Some t)"

definition updateMigrationRecordStatus ::
  "nat \<Rightarrow> string \<Rightarrow> string \<Rightarrow> string option \<Rightarrow> system \<Rightarrow> system" where
  "updateMigrationRecordStatus now rid status msg s =
     (case map_of (migrationRecordStatuses s) rid of
        None \<Rightarrow> s
      | Some recordStatus \<Rightarrow>
          s\<lparr>migrationRecordStatuses :=
              AList.update rid
                (recordStatus\<lparr>rs_status := status, errorMessage := orNull msg,
                              updatedAt := now\<rparr>)
                (migrationRecordStatuses s)\<rparr>)"

text \<open>\<^verbatim>\<open>{id: randomUUID(), ...entry}\<close>.\<close>

definition logEntryOf :: "string \<Rightarrow> ActivityInput \<Rightarrow> ActivityLogEntry" where
  "logEntryOf uuid entry =
     \<lparr>log_id = uuid, log_timestamp = in_timestamp entry, log_type = in_type entry,
      log_message = in_message entry, log_details = in_details entry\<rparr>"

definition addActivityLogEntry :: "string \<Rightarrow> ActivityInput \<Rightarrow> system \<Rightarrow> system" where
  "addActivityLogEntry uuid entry s =
     (let unshifted = logEntryOf uuid entry # activityLog s
      in s\<lparr>activityLog :=
             (if length unshifted > 100 then take 100 unshifted else unshifted)\<rparr>)"

text \<open>
  \<^verbatim>\<open>Array.prototype.slice(0, end)\<close> for an integer \<open>end\<close>: a negative end counts from
  the end of the array.
\<close>

definition slice0 :: "'a list \<Rightarrow> int \<Rightarrow> 'a list" where
  "slice0 xs e =
     (if e < 0 then take (nat (int (length xs) + e)) xs else take (nat e) xs)"

definition getActivityLog :: "int \<Rightarrow> system \<Rightarrow> ActivityLogEntry list" where
  "getActivityLog limit s = slice0 (activityLog s) limit"

definition clearActivityLog :: "system \<Rightarrow> system" where
  "clearActivityLog s = s\<lparr>activityLog := []\<rparr>"

text \<open>The state of a freshly started server: \<^verbatim>\<open>new MemStorage()\<close>.\<close>

definition newMemStorage :: system where
  "newMemStorage = \<lparr>apiConfiguration = None, dnsRecords = [], migrationJobs = [],
                     migrationRecordStatuses = [], activityLog = [], tick = 0, cfCalls = []\<rparr>"


section \<open>Strings and numbers of the route handlers\<close>

text \<open>The decimal digits of a number, as a template literal prints it.\<close>

fun showNat :: "nat \<Rightarrow> string" where
  "showNat n =
     (if n < 10 then [''0123456789'' ! n]
      else showNat (n div 10) @ [''0123456789'' ! (n mod 10)])"

declare showNat.simps [simp del]

text \<open>The separator of the \<^verbatim>\<open>details\<close> text: a space, the UTF-8 bytes of U+2192, a space.\<close>

definition arrow :: string where
  "arrow = [CHR '' '', CHR 0xE2, CHR 0x86, CHR 0x92, CHR '' '']"

text \<open>\<^verbatim>\<open>error?.message || 'Unknown error'\<close>.\<close>

fun errorText :: "thrown \<Rightarrow> string" where
  "errorText (Thrown None) = ''Unknown error''"
| "errorText (Thrown (Some m)) = (if m = [] then ''Unknown error'' else m)"

subsection \<open>Double-precision arithmetic\<close>

text \<open>
  A JavaScript number is an IEEE 754 double. A finite double is a rational number, and
  \<open>/\<close> and \<open>*\<close> return the double nearest to the exact result, ties to the even
  significand. \<open>fl64\<close> is that rounding for the magnitudes that occur here (between
  \<open>2\<^sup>-\<^sup>1\<^sup>0\<^sup>2\<^sup>2\<close> and \<open>2\<^sup>1\<^sup>0\<^sup>2\<^sup>4\<close>, where a double has 53 significant bits):
  the argument is scaled by the power of two that puts it between \<open>2\<^sup>5\<^sup>2\<close> and
  \<open>2\<^sup>5\<^sup>3\<close>, rounded to an integer, and scaled back.
\<close>

fun bitLength :: "nat \<Rightarrow> nat" where
  "bitLength n = (if n = 0 then 0 else Suc (bitLength (n div 2)))"

declare bitLength.simps [simp del]

definition pow2 :: "int \<Rightarrow> rat" where
  "pow2 k = (if 0 \<le> k then 2 ^ nat k else 1 / 2 ^ nat (- k))"

definition roundTiesEven :: "rat \<Rightarrow> int" where
  "roundTiesEven x =
     (let n = \<lfloor>x\<rfloor>; d = x - of_int n
      in if d < 1 / 2 then n
         else if 1 / 2 < d then n + 1
         else if even n then n else n + 1)"

text \<open>For \<open>0 < x\<close>, the \<open>k\<close> with \<open>2\<^sup>5\<^sup>2 \<le> x * 2\<^sup>k < 2\<^sup>5\<^sup>3\<close>.\<close>

definition binadeShift :: "rat \<Rightarrow> int" where
  "binadeShift x =
     (if 1 \<le> x then 53 - int (bitLength (nat \<lfloor>x\<rfloor>))
      else 52 + int (bitLength (nat (\<lceil>1 / x\<rceil> - 1))))"

definition fl64 :: "rat \<Rightarrow> rat" where
  "fl64 x =
     (if x = 0 then 0
      else let k = binadeShift \<bar>x\<bar>
           in sgn x * of_int (roundTiesEven (\<bar>x\<bar> * pow2 k)) / pow2 k)"

text \<open>\<^verbatim>\<open>Math.round\<close>: the nearest integer, a tie going up.\<close>

definition Math_round :: "rat \<Rightarrow> int" where
  "Math_round x = \<lfloor>x + 1 / 2\<rfloor>"

section \<open>Route handlers (server/routes.ts)\<close>

text \<open>
  Each handler is a function from the request and the state to the response and the new
  state. No call inside the three handlers below throws, so the \<^verbatim>\<open>catch\<close> blocks that
  answer with status 500 are never reached and have no branch here.
\<close>

subsection \<open>GET /api/config\<close>

text \<open>
  The stored configuration as the JavaScript object it is: \<^verbatim>\<open>saveApiConfiguration\<close>
  builds it as \<^verbatim>\<open>{id, ...config, isConnected, lastConnected}\<close>, where \<^verbatim>\<open>config\<close> is the
  parsed \<^verbatim>\<open>{email, apiKey}\<close>.
\<close>

definition configObject :: "ApiConfiguration \<Rightarrow> (string \<times> json) list" where
  "configObject c =
     [(''id'', JString (cfg_id c)), (''email'', JString (email c)),
      (''apiKey'', JString (apiKey c)), (''isConnected'', JBool (isConnected c)),
      (''lastConnected'', (case lastConnected c of None \<Rightarrow> JNull | Some d \<Rightarrow> JDate d))]"

text \<open>
  \<^verbatim>\<open>const { apiKey, ...safeConfig } = config\<close> and
  \<^verbatim>\<open>res.json({ ...safeConfig, hasApiKey: Boolean(apiKey) })\<close>.
\<close>

definition getConfig :: "system \<Rightarrow> (string \<times> json) list response" where
  "getConfig s =
     (case getApiConfiguration s of
        None \<Rightarrow> Fail 404 ''Configuration not found''
      | Some config \<Rightarrow>
          (let safeConfig = filter (\<lambda>(k, v). k \<noteq> ''apiKey'') (configObject config)
           in Json200 (AList.update ''hasApiKey'' (JBool (apiKey config \<noteq> [])) safeConfig)))"

subsection \<open>GET /api/migration/:jobId/progress\<close>

text \<open>
  \<^verbatim>\<open>job.completedRecords || 0\<close> is the counter itself. The percentage is computed in
  doubles; with \<^verbatim>\<open>totalRecords\<close> zero the quotient is \<^verbatim>\<open>NaN\<close> or \<^verbatim>\<open>Infinity\<close>, which
  \<^verbatim>\<open>res.json\<close> prints as \<^verbatim>\<open>null\<close> (\<open>None\<close>).
\<close>

definition getProgress :: "string \<Rightarrow> system \<Rightarrow> MigrationProgress response" where
  "getProgress jid s =
     (case getMigrationJob jid s of
        None \<Rightarrow> Fail 404 ''Migration job not found''
      | Some job \<Rightarrow>
          Json200
            \<lparr>p_jobId = job_id job,
             p_totalRecords = totalRecords job,
             p_completedRecords = completedRecords job,
             p_failedRecords = failedRecords job,
             processingRecords =
               int (totalRecords job) - int (completedRecords job) - int (failedRecords job),
             p_status = job_status job,
             progressPercentage =
               (if totalRecords job = 0 then None
                else Some (Math_round
                  (fl64 (fl64 (of_nat (completedRecords job + failedRecords job)
                                / of_nat (totalRecords job)) * 100))))\<rparr>)"

text \<open>
  The formula of the specification, in exact arithmetic:
  \<open>round(((completedRecords + failedRecords) / totalRecords) * 100)\<close>, a half rounded up.
\<close>

definition specPercentage :: "nat \<Rightarrow> nat \<Rightarrow> nat \<Rightarrow> int" where
  "specPercentage total_n completed failed =
     \<lfloor>(of_nat (completed + failed) / of_nat total_n) * (100 :: rat) + 1 / 2\<rfloor>"

subsection \<open>The migration engine: processMigration\<close>

text \<open>
  The engine is modelled as it runs when no other request changes the store between two
  of its awaited calls. The methods of \<^verbatim>\<open>MemStorage\<close> never throw, so inside the
  loop only the missing record and the provider call reach the \<^verbatim>\<open>catch\<close> block, and
  the outer \<^verbatim>\<open>catch\<close> block is reached only by the missing configuration.

  The calls of the handlers that reach the outside world: each reads the world at the
  current \<open>tick\<close> and advances it.
\<close>

definition advance :: "system \<Rightarrow> system" where
  "advance s = s\<lparr>tick := Suc (tick s)\<rparr>"

text \<open>The key of a record status: \<^verbatim>\<open>`${jobId}-${recordId}`\<close>.\<close>

definition statusKey :: "string \<Rightarrow> string \<Rightarrow> string" where
  "statusKey jid rid = jid @ ''-'' @ rid"

text \<open>\<^verbatim>\<open>storage.updateMigrationRecordStatus(`${jobId}-${recordId}`, status, message)\<close>.\<close>

definition setRecordStatus ::
  "env \<Rightarrow> string \<Rightarrow> string \<Rightarrow> string \<Rightarrow> string option \<Rightarrow> system \<Rightarrow> system" where
  "setRecordStatus e jid rid status msg s =
     advance (updateMigrationRecordStatus (newDate e (tick s)) (statusKey jid rid) status msg s)"

text \<open>\<^verbatim>\<open>storage.addActivityLogEntry({timestamp: new Date(), type, message, details})\<close>.\<close>

definition logActivity ::
  "env \<Rightarrow> string \<Rightarrow> string \<Rightarrow> string option \<Rightarrow> system \<Rightarrow> system" where
  "logActivity e ty msg det s =
     advance (addActivityLogEntry (randomUUID e (tick s))
       \<lparr>in_timestamp = newDate e (tick s), in_type = ty, in_message = msg, in_details = det\<rparr> s)"

definition setJobStatus :: "env \<Rightarrow> string \<Rightarrow> string \<Rightarrow> system \<Rightarrow> system" where
  "setJobStatus e jid status s =
     advance (updateMigrationJobStatus (newDate e (tick s)) jid status s)"

text \<open>\<^verbatim>\<open>cfApi.updateDnsRecord\<close>: the request is sent, and the world decides its outcome.\<close>

definition cfUpdateDnsRecord :: "env \<Rightarrow> PatchRequest \<Rightarrow> system \<Rightarrow> thrown option \<times> system" where
  "cfUpdateDnsRecord e req s =
     (updateDnsRecord e (tick s) req, s\<lparr>tick := Suc (tick s), cfCalls := cfCalls s @ [req]\<rparr>)"

text \<open>
  A sequence of awaited calls, with the state after each of them: these are the states
  a concurrent reader can observe.
\<close>

fun run :: "(system \<Rightarrow> system) list \<Rightarrow> system \<Rightarrow> system list" where
  "run [] s = []"
| "run (f # fs) s = f s # run fs (f s)"

text \<open>
  The \<^verbatim>\<open>catch\<close> block of one loop iteration, followed by the progress update after the
  \<^verbatim>\<open>try\<close> statement; \<open>failed\<close> is already incremented in the progress update.
\<close>

definition recordFailed ::
  "env \<Rightarrow> string \<Rightarrow> string \<Rightarrow> thrown \<Rightarrow> nat \<Rightarrow> nat \<Rightarrow> system \<Rightarrow> system list" where
  "recordFailed e jid rid err completed failed s =
     run [setRecordStatus e jid rid ''failed'' (Some (errorText err)),
          logActivity e ''error'' (''Failed to update DNS record: '' @ errorText err) None,
          updateMigrationJobProgress jid completed (Suc failed)] s"

text \<open>\<^verbatim>\<open>record.content = newIp\<close> on the element that \<^verbatim>\<open>find\<close> returned: the first match.\<close>

fun setContent :: "string \<Rightarrow> string \<Rightarrow> DnsRecord list \<Rightarrow> DnsRecord list" where
  "setContent rid v [] = []"
| "setContent rid v (r # rs) =
     (if rec_id r = rid then r\<lparr>content := v\<rparr> # rs else r # setContent rid v rs)"

text \<open>
  The arguments of \<^verbatim>\<open>cfApi.updateDnsRecord(record.zoneId, record.id, {type, name,
  content: newIp, ttl, proxied})\<close>.
\<close>

definition patchOf :: "string \<Rightarrow> DnsRecord \<Rightarrow> PatchRequest" where
  "patchOf newv record =
     \<lparr>patch_zoneId = zoneId record, patch_recordId = rec_id record,
      patch_type = rec_type record, patch_name = rec_name record,
      patch_content = newv, patch_ttl = ttl record, patch_proxied = proxied record\<rparr>"

text \<open>
  One iteration of the \<^verbatim>\<open>for\<close> loop: the states after each awaited call, and the
  counters \<open>completed\<close> and \<open>failed\<close> after it.
\<close>

definition processRecord ::
  "env \<Rightarrow> string \<Rightarrow> string \<Rightarrow> string \<Rightarrow> string \<Rightarrow> system \<Rightarrow> nat \<Rightarrow> nat
     \<Rightarrow> system list \<times> nat \<times> nat" where
  "processRecord e jid oldv newv rid s completed failed =
     (let s1 = setRecordStatus e jid rid ''processing'' None s;
          allRecords = getDnsRecords s1
      in case find (\<lambda>r. rec_id r = rid) allRecords of
           None \<Rightarrow>
             (s1 # recordFailed e jid rid (Thrown (Some ''Record not found'')) completed failed s1,
              completed, Suc failed)
         | Some record \<Rightarrow>
             (case cfUpdateDnsRecord e (patchOf newv record) s1 of
                (Some err, s2) \<Rightarrow>
                  (s1 # s2 # recordFailed e jid rid err completed failed s2,
                   completed, Suc failed)
              | (None, s2) \<Rightarrow>
                  (s1 # s2 #
                   run [saveDnsRecords (setContent rid newv allRecords),
                        setRecordStatus e jid rid ''completed'' None,
                        logActivity e ''success'' (''Updated DNS record for '' @ rec_name record)
                          (Some (oldv @ arrow @ newv)),
                        updateMigrationJobProgress jid (Suc completed) failed] s2,
                   Suc completed, failed)))"

fun processLoop ::
  "env \<Rightarrow> string \<Rightarrow> string \<Rightarrow> string \<Rightarrow> string list \<Rightarrow> system \<Rightarrow> nat \<Rightarrow> nat
     \<Rightarrow> system list \<times> nat \<times> nat" where
  "processLoop e jid oldv newv [] s completed failed = ([], completed, failed)"
| "processLoop e jid oldv newv (rid # rest) s completed failed =
     (case processRecord e jid oldv newv rid s completed failed of
        (t, c, f) \<Rightarrow>
          (case processLoop e jid oldv newv rest (last t) c f of
             (t', c', f') \<Rightarrow> (t @ t', c', f')))"

text \<open>
  \<^verbatim>\<open>processMigration\<close>: the states after each awaited call, in order; the last one is
  the state when the function returns. Without a configuration the outer \<^verbatim>\<open>catch\<close>
  block runs; no other statement of the outer \<^verbatim>\<open>try\<close> block throws.
\<close>

definition processMigration ::
  "env \<Rightarrow> string \<Rightarrow> string list \<Rightarrow> string \<Rightarrow> string \<Rightarrow> system \<Rightarrow> system list" where
  "processMigration e jid recordIds oldv newv s =
     (case getApiConfiguration s of
        None \<Rightarrow>
          run [setJobStatus e jid ''failed'',
               logActivity e ''error'' (''Migration failed: '' @ ''No API configuration found'')
                 None] s
      | Some config \<Rightarrow>
          (let s1 = setJobStatus e jid ''running'' s
           in case processLoop e jid oldv newv recordIds s1 0 0 of
                (t, completed, failed) \<Rightarrow>
                  s1 # t @
                  run [setJobStatus e jid ''completed'',
                       logActivity e ''success''
                         (''Migration completed: '' @ showNat completed @ '' success, '' @
                          showNat failed @ '' failed'') None]
                    (last (s1 # t))))"

subsection \<open>POST /api/migration/start\<close>

text \<open>
  The request body: a missing field is \<open>None\<close>, and so is a \<^verbatim>\<open>recordIds\<close> that is not an
  array.
\<close>

record StartBody =
  body_oldIp :: "string option"
  body_newIp :: "string option"
  body_recordIds :: "string list option"

definition falsy :: "string option \<Rightarrow> bool" where
  "falsy v = (case v of None \<Rightarrow> True | Some t \<Rightarrow> t = [])"

text \<open>
  The handler up to its response: the response, the state, and the arguments of the
  \<^verbatim>\<open>processMigration\<close> call that it starts without waiting for it (\<open>None\<close> when it starts
  none).
\<close>

definition migrationStart ::
  "env \<Rightarrow> StartBody \<Rightarrow> system
     \<Rightarrow> string response \<times> system \<times> (string \<times> string list \<times> string \<times> string) option" where
  "migrationStart e body s =
     (if falsy (body_oldIp body) \<or> falsy (body_newIp body)
         \<or> body_recordIds body = None \<or> body_recordIds body = Some []
      then (Fail 400 ''Missing required parameters'', s, None)
      else
        let oldv = the (body_oldIp body); newv = the (body_newIp body);
            recordIds = the (body_recordIds body);
            (job, s1) = createMigrationJob (randomUUID e (tick s)) (newDate e (tick s))
                          oldv newv (length recordIds) s;
            s2 = advance s1;
            recordStatuses =
              map (\<lambda>rid. \<lparr>rs_id = statusKey (job_id job) rid, jobId = job_id job,
                            recordId = rid, rs_status = ''pending'', errorMessage = None,
                            updatedAt = newDate e (tick s2)\<rparr>) recordIds;
            s3 = advance (saveMigrationRecordStatus recordStatuses s2);
            s4 = logActivity e ''info''
                   (''Starting migration for '' @ showNat (length recordIds) @ '' DNS records'')
                   (Some (oldv @ arrow @ newv)) s3
        in (Json200 (job_id job), s4, Some (job_id job, recordIds, oldv, newv)))"

text \<open>The requests that the handler accepts.\<close>

definition startsJob :: "StartBody \<Rightarrow> bool" where
  "startsJob body =
     (\<exists>oldv newv rids. body_oldIp body = Some oldv \<and> oldv \<noteq> [] \<and>
        body_newIp body = Some newv \<and> newv \<noteq> [] \<and>
        body_recordIds body = Some rids \<and> rids \<noteq> [])"

text \<open>
  A whole migration, run to its end: the state when the handler has answered, followed
  by the states of \<^verbatim>\<open>processMigration\<close>.
\<close>

definition migrationTrace :: "env \<Rightarrow> StartBody \<Rightarrow> system \<Rightarrow> system list" where
  "migrationTrace e body s =
     (case migrationStart e body s of
        (r, s', None) \<Rightarrow> [s']
      | (r, s', Some (jid, recordIds, oldv, newv)) \<Rightarrow>
          s' # processMigration e jid recordIds oldv newv s')"


section \<open>Properties of states\<close>

text \<open>The cached listing holds one snapshot per record id.\<close>

definition wfDns :: "system \<Rightarrow> bool" where
  "wfDns s = distinct (map rec_id (getDnsRecords s))"

text \<open>Every record status has an error message exactly when it is \<open>failed\<close>.\<close>

definition statusOk :: "MigrationRecordStatus \<Rightarrow> bool" where
  "statusOk v = ((errorMessage v \<noteq> None) = (rs_status v = ''failed''))"

definition statusesOk :: "system \<Rightarrow> bool" where
  "statusesOk s = list_all statusOk (map snd (migrationRecordStatuses s))"

text \<open>The status of a record of a job, when the store has an entry for it.\<close>

definition statusOf :: "string \<Rightarrow> string \<Rightarrow> system \<Rightarrow> string option" where
  "statusOf jid rid s =
     map_option rs_status (map_of (migrationRecordStatuses s) (statusKey jid rid))"

text \<open>The counters of a job, when the store has the job: completed, failed, total.\<close>

definition counters :: "string \<Rightarrow> system \<Rightarrow> (nat \<times> nat \<times> nat) option" where
  "counters jid s =
     map_option (\<lambda>j. (completedRecords j, failedRecords j, totalRecords j))
       (getMigrationJob jid s)"

text \<open>Between two states, neither counter of the job goes down.\<close>

definition countersMonotone :: "string \<Rightarrow> system \<Rightarrow> system \<Rightarrow> bool" where
  "countersMonotone jid s s' =
     (case (counters jid s, counters jid s') of
        (Some (c, f, n), Some (c', f', n')) \<Rightarrow> c \<le> c' \<and> f \<le> f'
      | _ \<Rightarrow> False)"

text \<open>The status and the error message of a record of a job, when the store has an entry.\<close>

definition statusMsgOf :: "string \<Rightarrow> string \<Rightarrow> system \<Rightarrow> (string \<times> string option) option" where
  "statusMsgOf jid rid s =
     map_option (\<lambda>v. (rs_status v, errorMessage v))
       (map_of (migrationRecordStatuses s) (statusKey jid rid))"

subsection \<open>The outcome that the specification prescribes for each record\<close>

text \<open>
  The processing procedure of the specification, step 2, with the listing \<open>recs\<close> that
  is cached when the loop starts: the record ids are taken in the order of the request;
  an id without a snapshot fails with \<open>Record not found\<close>; for an id with a snapshot the
  update call is made, and the id fails with what the call throws or succeeds; then the
  next id is taken, whatever the outcome was. An outcome is \<open>None\<close> for success and the
  thrown value for failure.

  The number \<open>n\<close> is the number of interactions with the world before the iteration:
  the update call is the second interaction of its iteration (the first is the
  timestamp of the \<open>processing\<close> status), and an iteration makes three interactions when
  the snapshot is missing (two status timestamps and a log entry) and four otherwise.
\<close>

definition outcomeOf :: "env \<Rightarrow> string \<Rightarrow> DnsRecord list \<Rightarrow> nat \<Rightarrow> string \<Rightarrow> thrown option" where
  "outcomeOf e newv recs n rid =
     (case find (\<lambda>r. rec_id r = rid) recs of
        None \<Rightarrow> Some (Thrown (Some ''Record not found''))
      | Some r \<Rightarrow> updateDnsRecord e (Suc n) (patchOf newv r))"

fun outcomes ::
  "env \<Rightarrow> string \<Rightarrow> DnsRecord list \<Rightarrow> nat \<Rightarrow> string list \<Rightarrow> (string \<times> thrown option) list" where
  "outcomes e newv recs n [] = []"
| "outcomes e newv recs n (rid # rest) =
     (rid, outcomeOf e newv recs n rid) #
     outcomes e newv recs
       (n + (if find (\<lambda>r. rec_id r = rid) recs = None then 3 else 4)) rest"

text \<open>
  The record status that goes with an outcome: \<open>completed\<close> with no message, or \<open>failed\<close>
  with the text of the error.
\<close>

definition outcomeStatus :: "thrown option \<Rightarrow> string \<times> string option" where
  "outcomeStatus out =
     (case out of None \<Rightarrow> (''completed'', None)
      | Some err \<Rightarrow> (''failed'', Some (errorText err)))"

text \<open>
  A world for the examples: UUIDs \<open>job0\<close>, \<open>job1\<close>, ..., a clock that starts at 1000,
  and a provider that rejects every update of the record \<open>r2\<close>.
\<close>

definition env0 :: env where
  "env0 = \<lparr>randomUUID = (\<lambda>n. ''job'' @ showNat n), newDate = (\<lambda>n. 1000 + n),
           updateDnsRecord =
             (\<lambda>n req. if patch_recordId req = ''r2''
                        then Some (Thrown (Some ''Cloudflare API error: 500 Internal Server Error''))
                        else None)\<rparr>"

text \<open>
  A state for the examples: a stored configuration and a cached listing of the records
  \<open>r1\<close>, \<open>r2\<close>, \<open>r3\<close>, all pointing to 1.1.1.1; and a request to move the three
  records and the unknown record \<open>r9\<close> to 2.2.2.2.
\<close>

definition recs0 :: "DnsRecord list" where
  "recs0 = map (\<lambda>i. \<lparr>rec_id = ''r'' @ showNat i, zoneId = ''z'', zoneName = ''example.com'',
                         rec_name = ''h'' @ showNat i, rec_type = ''A'', content = ''1.1.1.1'',
                         ttl = 1, proxied = False, locked = False\<rparr>) [1, 2, 3]"

definition s0 :: system where
  "s0 = saveDnsRecords recs0
          (newMemStorage\<lparr>apiConfiguration :=
             Some \<lparr>cfg_id = ''default'', email = ''a@b.c'', apiKey = ''key'',
                   isConnected = False, lastConnected = None\<rparr>\<rparr>)"

definition body0 :: StartBody where
  "body0 = \<lparr>body_oldIp = Some ''1.1.1.1'', body_newIp = Some ''2.2.2.2'',
             body_recordIds = Some [''r1'', ''r2'', ''r9'', ''r3'']\<rparr>"

section \<open>What each call changes\<close>

lemma advance_fields [simp]:
  "apiConfiguration (advance s) = apiConfiguration s"
  "dnsRecords (advance s) = dnsRecords s"
  "migrationJobs (advance s) = migrationJobs s"
  "migrationRecordStatuses (advance s) = migrationRecordStatuses s"
  "activityLog (advance s) = activityLog s"
  "cfCalls (advance s) = cfCalls s"
  "tick (advance s) = Suc (tick s)"
  by (simp_all add: advance_def)

lemma setRecordStatus_fields [simp]:
  "apiConfiguration (setRecordStatus e jid rid st m s) = apiConfiguration s"
  "dnsRecords (setRecordStatus e jid rid st m s) = dnsRecords s"
  "migrationJobs (setRecordStatus e jid rid st m s) = migrationJobs s"
  "activityLog (setRecordStatus e jid rid st m s) = activityLog s"
  "cfCalls (setRecordStatus e jid rid st m s) = cfCalls s"
  "tick (setRecordStatus e jid rid st m s) = Suc (tick s)"
  by (simp_all add: setRecordStatus_def updateMigrationRecordStatus_def split: option.split)

lemma logActivity_fields [simp]:
  "apiConfiguration (logActivity e ty msg det s) = apiConfiguration s"
  "dnsRecords (logActivity e ty msg det s) = dnsRecords s"
  "migrationJobs (logActivity e ty msg det s) = migrationJobs s"
  "migrationRecordStatuses (logActivity e ty msg det s) = migrationRecordStatuses s"
  "cfCalls (logActivity e ty msg det s) = cfCalls s"
  "tick (logActivity e ty msg det s) = Suc (tick s)"
  by (simp_all add: logActivity_def addActivityLogEntry_def Let_def)

lemma setJobStatus_fields [simp]:
  "apiConfiguration (setJobStatus e jid st s) = apiConfiguration s"
  "dnsRecords (setJobStatus e jid st s) = dnsRecords s"
  "migrationRecordStatuses (setJobStatus e jid st s) = migrationRecordStatuses s"
  "activityLog (setJobStatus e jid st s) = activityLog s"
  "cfCalls (setJobStatus e jid st s) = cfCalls s"
  "tick (setJobStatus e jid st s) = Suc (tick s)"
  by (simp_all add: setJobStatus_def updateMigrationJobStatus_def split: option.split)

lemma updateMigrationJobProgress_fields [simp]:
  "apiConfiguration (updateMigrationJobProgress jid c f s) = apiConfiguration s"
  "dnsRecords (updateMigrationJobProgress jid c f s) = dnsRecords s"
  "migrationRecordStatuses (updateMigrationJobProgress jid c f s) = migrationRecordStatuses s"
  "activityLog (updateMigrationJobProgress jid c f s) = activityLog s"
  "cfCalls (updateMigrationJobProgress jid c f s) = cfCalls s"
  "tick (updateMigrationJobProgress jid c f s) = tick s"
  by (simp_all add: updateMigrationJobProgress_def split: option.split)

lemma saveDnsRecords_fields [simp]:
  "apiConfiguration (saveDnsRecords rs s) = apiConfiguration s"
  "migrationJobs (saveDnsRecords rs s) = migrationJobs s"
  "migrationRecordStatuses (saveDnsRecords rs s) = migrationRecordStatuses s"
  "activityLog (saveDnsRecords rs s) = activityLog s"
  "cfCalls (saveDnsRecords rs s) = cfCalls s"
  "tick (saveDnsRecords rs s) = tick s"
  by (simp_all add: saveDnsRecords_def)

lemma cfUpdateDnsRecord_fields [simp]:
  "fst (cfUpdateDnsRecord e req s) = updateDnsRecord e (tick s) req"
  "apiConfiguration (snd (cfUpdateDnsRecord e req s)) = apiConfiguration s"
  "dnsRecords (snd (cfUpdateDnsRecord e req s)) = dnsRecords s"
  "migrationJobs (snd (cfUpdateDnsRecord e req s)) = migrationJobs s"
  "migrationRecordStatuses (snd (cfUpdateDnsRecord e req s)) = migrationRecordStatuses s"
  "activityLog (snd (cfUpdateDnsRecord e req s)) = activityLog s"
  "cfCalls (snd (cfUpdateDnsRecord e req s)) = cfCalls s @ [req]"
  "tick (snd (cfUpdateDnsRecord e req s)) = Suc (tick s)"
  by (simp_all add: cfUpdateDnsRecord_def)

text \<open>The three ways an iteration can go.\<close>

lemma processRecord_cases [case_names missing rejected updated]:
  assumes "\<And>s1. s1 = setRecordStatus e jid rid ''processing'' None s \<Longrightarrow>
             find (\<lambda>r. rec_id r = rid) (getDnsRecords s) = None \<Longrightarrow>
             processRecord e jid oldv newv rid s c f =
               (s1 # recordFailed e jid rid (Thrown (Some ''Record not found'')) c f s1,
                c, Suc f) \<Longrightarrow> thesis"
    and "\<And>s1 s2 r err. s1 = setRecordStatus e jid rid ''processing'' None s \<Longrightarrow>
             s2 = snd (cfUpdateDnsRecord e (patchOf newv r) s1) \<Longrightarrow>
             find (\<lambda>r. rec_id r = rid) (getDnsRecords s) = Some r \<Longrightarrow>
             updateDnsRecord e (Suc (tick s)) (patchOf newv r) = Some err \<Longrightarrow>
             processRecord e jid oldv newv rid s c f =
               (s1 # s2 # recordFailed e jid rid err c f s2, c, Suc f) \<Longrightarrow> thesis"
    and "\<And>s1 s2 r. s1 = setRecordStatus e jid rid ''processing'' None s \<Longrightarrow>
             s2 = snd (cfUpdateDnsRecord e (patchOf newv r) s1) \<Longrightarrow>
             find (\<lambda>r. rec_id r = rid) (getDnsRecords s) = Some r \<Longrightarrow>
             updateDnsRecord e (Suc (tick s)) (patchOf newv r) = None \<Longrightarrow>
             processRecord e jid oldv newv rid s c f =
               (s1 # s2 #
                run [saveDnsRecords (setContent rid newv (getDnsRecords s)),
                     setRecordStatus e jid rid ''completed'' None,
                     logActivity e ''success'' (''Updated DNS record for '' @ rec_name r)
                       (Some (oldv @ arrow @ newv)),
                     updateMigrationJobProgress jid (Suc c) f] s2,
                Suc c, f) \<Longrightarrow> thesis"
  shows thesis
proof -
  let ?s1 = "setRecordStatus e jid rid ''processing'' None s"
  have g: "getDnsRecords ?s1 = getDnsRecords s" by (simp add: getDnsRecords_def)
  show ?thesis
  proof (cases "find (\<lambda>r. rec_id r = rid) (getDnsRecords s)")
    case None
    then show ?thesis
      using assms(1) [of ?s1] by (simp add: processRecord_def g Let_def)
  next
    case (Some r)
    let ?s2 = "snd (cfUpdateDnsRecord e (patchOf newv r) ?s1)"
    show ?thesis
    proof (cases "updateDnsRecord e (Suc (tick s)) (patchOf newv r)")
      case None
      then show ?thesis
        using assms(3) [of ?s1 ?s2 r] Some
        by (simp add: processRecord_def g Let_def cfUpdateDnsRecord_def)
    next
      case (Some err)
      then show ?thesis
        using assms(2) [of ?s1 ?s2 r err] \<open>find _ _ = Some r\<close>
        by (simp add: processRecord_def g Let_def cfUpdateDnsRecord_def)
    qed
  qed
qed

lemma jobs_processRecord:
  assumes "processRecord e jid oldv newv rid s c f = (t, c', f')"
  shows "t \<noteq> []"
    and "c' = Suc c \<and> f' = f \<or> c' = c \<and> f' = Suc f"
    and "\<forall>x \<in> set (butlast t). migrationJobs x = migrationJobs s"
    and "migrationJobs (last t) = migrationJobs (updateMigrationJobProgress jid c' f' s)"
proof -
  have upd: "migrationJobs x = migrationJobs s \<Longrightarrow>
      migrationJobs (updateMigrationJobProgress jid a b x) =
      migrationJobs (updateMigrationJobProgress jid a b s)" for x a b
    by (simp add: updateMigrationJobProgress_def split: option.split)
  show "t \<noteq> []" "c' = Suc c \<and> f' = f \<or> c' = c \<and> f' = Suc f"
    "\<forall>x \<in> set (butlast t). migrationJobs x = migrationJobs s"
    "migrationJobs (last t) = migrationJobs (updateMigrationJobProgress jid c' f' s)"
    using assms
    by (cases rule: processRecord_cases [of e jid rid s oldv newv c f];
        auto simp: recordFailed_def intro!: upd)+
qed

section \<open>The job during processing\<close>

lemma getMigrationJob_progress:
  "getMigrationJob jid (updateMigrationJobProgress jid c f s) =
     map_option (\<lambda>j. j\<lparr>completedRecords := c, failedRecords := f\<rparr>) (getMigrationJob jid s)"
  by (simp add: getMigrationJob_def updateMigrationJobProgress_def update_conv'
           split: option.split)

lemma getMigrationJob_status:
  "getMigrationJob jid (setJobStatus e jid st s) =
     map_option (\<lambda>j. j\<lparr>job_status := st,
                        completedAt := (if st = ''completed'' \<or> st = ''failed''
                                        then Some (newDate e (tick s)) else completedAt j)\<rparr>)
       (getMigrationJob jid s)"
  by (simp add: getMigrationJob_def setJobStatus_def updateMigrationJobStatus_def update_conv'
           split: option.split)

lemma getMigrationJob_cong:
  "migrationJobs x = migrationJobs y \<Longrightarrow> getMigrationJob jid x = getMigrationJob jid y"
  by (simp add: getMigrationJob_def)

lemma countersMonotone_cong:
  "migrationJobs x = migrationJobs x' \<Longrightarrow> migrationJobs y = migrationJobs y' \<Longrightarrow>
     countersMonotone jid x y = countersMonotone jid x' y'"
  by (simp add: countersMonotone_def counters_def getMigrationJob_def)

lemma countersMonotone_jobs:
  "getMigrationJob jid x = Some j \<Longrightarrow> getMigrationJob jid y = Some j' \<Longrightarrow>
     countersMonotone jid x y =
       (completedRecords j \<le> completedRecords j' \<and> failedRecords j \<le> failedRecords j')"
  by (simp add: countersMonotone_def counters_def)

lemma successively_join:
  "xs \<noteq> [] \<Longrightarrow> successively P xs \<Longrightarrow> successively P (last xs # ys) \<Longrightarrow>
     successively P (xs @ ys)"
  by (cases ys) (auto simp: successively_append_iff successively_Cons)

lemma successively_unchanged_then:
  assumes "\<forall>x \<in> set xs. migrationJobs x = migrationJobs s"
      and "countersMonotone jid s s" and "countersMonotone jid s y"
  shows "successively (countersMonotone jid) (s # xs @ [y])"
  using assms
proof (induction xs arbitrary: s)
  case Nil
  then show ?case by simp
next
  case (Cons x xs)
  have eq: "migrationJobs x = migrationJobs s" using Cons.prems(1) by simp
  have "successively (countersMonotone jid) (x # xs @ [y])"
  proof (rule Cons.IH)
    show "\<forall>z \<in> set xs. migrationJobs z = migrationJobs x" using Cons.prems(1) by simp
    show "countersMonotone jid x x"
      using Cons.prems(2) countersMonotone_cong [OF eq eq] by simp
    show "countersMonotone jid x y"
      using Cons.prems(3) countersMonotone_cong [OF eq refl] by simp
  qed
  moreover have "countersMonotone jid s x"
    using Cons.prems(2) countersMonotone_cong [OF refl eq] by simp
  ultimately show ?case by simp
qed

text \<open>One iteration, seen from the job.\<close>

lemma job_processRecord:
  assumes pr: "processRecord e jid oldv newv rid s c f = (t, c', f')"
      and job: "getMigrationJob jid s = Some j"
      and cf: "completedRecords j \<le> c'" "failedRecords j \<le> f'"
  shows "\<forall>x \<in> set (butlast t). getMigrationJob jid x = Some j"
    and "getMigrationJob jid (last t) =
           Some (j\<lparr>completedRecords := c', failedRecords := f'\<rparr>)"
    and "successively (countersMonotone jid) (s # t)"
proof -
  note jp = jobs_processRecord [OF pr]
  show b: "\<forall>x \<in> set (butlast t). getMigrationJob jid x = Some j"
    using jp(3) job by (auto simp: getMigrationJob_def)
  show l: "getMigrationJob jid (last t) =
           Some (j\<lparr>completedRecords := c', failedRecords := f'\<rparr>)"
    using getMigrationJob_cong [OF jp(4), of jid] job by (simp add: getMigrationJob_progress)
  have "successively (countersMonotone jid) (s # butlast t @ [last t])"
  proof (rule successively_unchanged_then)
    show "\<forall>x \<in> set (butlast t). migrationJobs x = migrationJobs s" by (rule jp(3))
    show "countersMonotone jid s s" using job by (simp add: countersMonotone_jobs)
    show "countersMonotone jid s (last t)"
      using job l cf by (simp add: countersMonotone_jobs)
  qed
  then show "successively (countersMonotone jid) (s # t)"
    using jp(1) by simp
qed

lemma job_processLoop:
  assumes "processLoop e jid oldv newv rids s c f = (t, c', f')"
      and "getMigrationJob jid s = Some j"
      and "completedRecords j = c" "failedRecords j = f"
  shows "c' + f' = c + f + length rids \<and> c \<le> c' \<and> f \<le> f' \<and>
         (\<exists>j'. getMigrationJob jid (last (s # t)) = Some j' \<and>
               totalRecords j' = totalRecords j \<and> job_status j' = job_status j \<and>
               completedRecords j' = c' \<and> failedRecords j' = f') \<and>
         (\<forall>x \<in> set t. \<exists>j'. getMigrationJob jid x = Some j' \<and>
               totalRecords j' = totalRecords j \<and> job_status j' = job_status j \<and>
               completedRecords j' + failedRecords j' \<le> c' + f') \<and>
         successively (countersMonotone jid) (s # t)"
  using assms
proof (induction rids arbitrary: s c f t c' f' j)
  case Nil
  then show ?case by (simp add: countersMonotone_jobs)
next
  case (Cons rid rest)
  obtain t1 c1 f1 where pr: "processRecord e jid oldv newv rid s c f = (t1, c1, f1)"
    by (cases "processRecord e jid oldv newv rid s c f") auto
  obtain t2 where pl: "processLoop e jid oldv newv rest (last t1) c1 f1 = (t2, c', f')"
    and t: "t = t1 @ t2"
    using Cons.prems(1) pr by (auto split: prod.splits)
  note jp = jobs_processRecord [OF pr]
  have c1f1: "c \<le> c1" "f \<le> f1" "c1 + f1 = Suc (c + f)" using jp(2) by auto
  let ?j1 = "j\<lparr>completedRecords := c1, failedRecords := f1\<rparr>"
  note jr = job_processRecord [OF pr Cons.prems(2)]
  have b: "\<forall>x \<in> set (butlast t1). getMigrationJob jid x = Some j"
    and l: "getMigrationJob jid (last t1) = Some ?j1"
    and su: "successively (countersMonotone jid) (s # t1)"
    using jr c1f1 Cons.prems(3,4) by auto
  have ih: "c' + f' = c1 + f1 + length rest \<and> c1 \<le> c' \<and> f1 \<le> f' \<and>
         (\<exists>j'. getMigrationJob jid (last (last t1 # t2)) = Some j' \<and>
               totalRecords j' = totalRecords ?j1 \<and> job_status j' = job_status ?j1 \<and>
               completedRecords j' = c' \<and> failedRecords j' = f') \<and>
         (\<forall>x \<in> set t2. \<exists>j'. getMigrationJob jid x = Some j' \<and>
               totalRecords j' = totalRecords ?j1 \<and> job_status j' = job_status ?j1 \<and>
               completedRecords j' + failedRecords j' \<le> c' + f') \<and>
         successively (countersMonotone jid) (last t1 # t2)"
    by (rule Cons.IH [OF pl l]) simp_all
  have last_eq: "last (s # t) = last (last t1 # t2)"
    using jp(1) by (simp add: t)
  have in_t1: "\<exists>j'. getMigrationJob jid x = Some j' \<and>
               totalRecords j' = totalRecords j \<and> job_status j' = job_status j \<and>
               completedRecords j' + failedRecords j' \<le> c' + f'" if "x \<in> set t1" for x
  proof -
    from that jp(1) have "x \<in> set (butlast t1) \<or> x = last t1"
      by (metis append_butlast_last_id in_set_conv_decomp rotate1.simps(2) set_ConsD set_rotate1)
    then show ?thesis
      using b l ih c1f1 Cons.prems(3,4) by auto
  qed
  have "successively (countersMonotone jid) ((s # t1) @ t2)"
    using su ih jp(1) by (intro successively_join) simp_all
  then show ?case
    using ih c1f1 in_t1 last_eq by (auto simp: t)
qed

section \<open>Properties kept by every call\<close>

lemma getDnsRecords_unchanged [simp]:
  "getDnsRecords (setRecordStatus e jid rid st m s) = getDnsRecords s"
  "getDnsRecords (logActivity e ty msg det s) = getDnsRecords s"
  "getDnsRecords (setJobStatus e jid st s) = getDnsRecords s"
  "getDnsRecords (updateMigrationJobProgress jid c f s) = getDnsRecords s"
  "getDnsRecords (snd (cfUpdateDnsRecord e req s)) = getDnsRecords s"
  by (simp_all add: getDnsRecords_def)

text \<open>
  A property of states that every call of an iteration preserves holds in every state
  of the iteration, of the loop and of the whole run.
\<close>

lemma run_invariant:
  "P s \<Longrightarrow> (\<And>g x. g \<in> set fs \<Longrightarrow> P x \<Longrightarrow> P (g x)) \<Longrightarrow> \<forall>x \<in> set (run fs s). P x"
  by (induction fs arbitrary: s) auto

lemma last_run_Cons: "last (s # run fs s) = fold (\<lambda>g x. g x) fs s"
  by (induction fs arbitrary: s) auto

lemma processRecord_invariant:
  assumes pr: "processRecord e jid oldv newv rid s c f = (t, c', f')"
      and P: "P s"
      and status: "\<And>x st m. P x \<Longrightarrow>
                     (st = ''failed'') = (orNull m \<noteq> None) \<Longrightarrow>
                     P (setRecordStatus e jid rid st m x)"
      and log: "\<And>x ty msg det. P x \<Longrightarrow> P (logActivity e ty msg det x)"
      and progress: "\<And>x a b. P x \<Longrightarrow> P (updateMigrationJobProgress jid a b x)"
      and call: "\<And>x req. P x \<Longrightarrow> P (snd (cfUpdateDnsRecord e req x))"
      and save: "\<And>x. P x \<Longrightarrow> P (saveDnsRecords (setContent rid newv (getDnsRecords x)) x)"
  shows "\<forall>x \<in> set t. P x"
proof -
  have nonempty: "errorText err \<noteq> []" for err
    by (cases err rule: errorText.cases) auto
  have failed: "\<forall>x \<in> set (recordFailed e jid rid err a b y). P x" if "P y" for err a b y
    unfolding recordFailed_def
    using that by (auto simp: orNull_def nonempty intro!: status log progress)
  show ?thesis
  proof (cases rule: processRecord_cases [of e jid rid s oldv newv c f])
    case (missing s1)
    have "P s1" unfolding missing(1) by (rule status [OF P]) (simp add: orNull_def)
    then show ?thesis using failed [of s1] pr missing(3) by auto
  next
    case (rejected s1 s2 r err)
    have "P s1" unfolding rejected(1) by (rule status [OF P]) (simp add: orNull_def)
    then have "P s2" unfolding rejected(2) by (rule call)
    then show ?thesis using failed [of s2] \<open>P s1\<close> pr rejected(5) by auto
  next
    case (updated s1 s2 r)
    have 1: "P s1" unfolding updated(1) by (rule status [OF P]) (simp add: orNull_def)
    then have 2: "P s2" unfolding updated(2) by (rule call)
    have g: "getDnsRecords s2 = getDnsRecords s" by (simp add: updated(1,2))
    have 3: "P (saveDnsRecords (setContent rid newv (getDnsRecords s)) s2)"
      using save [OF 2] by (simp add: g)
    then have 4: "P (setRecordStatus e jid rid ''completed'' None
                      (saveDnsRecords (setContent rid newv (getDnsRecords s)) s2))"
      by (rule status) (simp add: orNull_def)
    show ?thesis
      using pr 1 2 3 4 by (auto simp: updated(5) intro!: log progress)
  qed
qed

lemma processLoop_invariant:
  assumes "processLoop e jid oldv newv rids s c f = (t, c', f')"
      and "P s"
      and status: "\<And>x rid st m. P x \<Longrightarrow> rid \<in> set rids \<Longrightarrow>
                     (st = ''failed'') = (orNull m \<noteq> None) \<Longrightarrow>
                     P (setRecordStatus e jid rid st m x)"
      and log: "\<And>x ty msg det. P x \<Longrightarrow> P (logActivity e ty msg det x)"
      and progress: "\<And>x a b. P x \<Longrightarrow> P (updateMigrationJobProgress jid a b x)"
      and call: "\<And>x req. P x \<Longrightarrow> P (snd (cfUpdateDnsRecord e req x))"
      and save: "\<And>x rid. P x \<Longrightarrow> rid \<in> set rids \<Longrightarrow>
                   P (saveDnsRecords (setContent rid newv (getDnsRecords x)) x)"
  shows "\<forall>x \<in> set t. P x"
  using assms
proof (induction rids arbitrary: s c f t c' f')
  case Nil
  then show ?case by simp
next
  case (Cons rid rest)
  obtain t1 c1 f1 where pr: "processRecord e jid oldv newv rid s c f = (t1, c1, f1)"
    by (cases "processRecord e jid oldv newv rid s c f") auto
  obtain t2 where pl: "processLoop e jid oldv newv rest (last t1) c1 f1 = (t2, c', f')"
    and t: "t = t1 @ t2"
    using Cons.prems(1) pr by (auto split: prod.splits)
  have 1: "\<forall>x \<in> set t1. P x"
    by (rule processRecord_invariant [where P = P, OF pr Cons.prems(2)])
       (auto intro: Cons.prems(3-7))
  have "t1 \<noteq> []" by (rule jobs_processRecord(1) [OF pr])
  then have "P (last t1)" using 1 by simp
  then have "\<forall>x \<in> set t2. P x"
    by (rule Cons.IH [OF pl]) (auto intro: Cons.prems(3-7))
  then show ?case using 1 by (auto simp: t)
qed

lemma processMigration_invariant:
  assumes "P s"
      and status: "\<And>x rid st m. P x \<Longrightarrow> rid \<in> set rids \<Longrightarrow>
                     (st = ''failed'') = (orNull m \<noteq> None) \<Longrightarrow>
                     P (setRecordStatus e jid rid st m x)"
      and log: "\<And>x ty msg det. P x \<Longrightarrow> P (logActivity e ty msg det x)"
      and progress: "\<And>x a b. P x \<Longrightarrow> P (updateMigrationJobProgress jid a b x)"
      and call: "\<And>x req. P x \<Longrightarrow> P (snd (cfUpdateDnsRecord e req x))"
      and save: "\<And>x rid. P x \<Longrightarrow> rid \<in> set rids \<Longrightarrow>
                   P (saveDnsRecords (setContent rid newv (getDnsRecords x)) x)"
      and job: "\<And>x st. P x \<Longrightarrow> P (setJobStatus e jid st x)"
  shows "\<forall>x \<in> set (processMigration e jid rids oldv newv s). P x"
proof (cases "getApiConfiguration s")
  case None
  then show ?thesis
    using assms(1) by (auto simp: processMigration_def intro!: job log)
next
  case (Some cfg)
  let ?s1 = "setJobStatus e jid ''running'' s"
  obtain t c f where pl: "processLoop e jid oldv newv rids ?s1 0 0 = (t, c, f)"
    by (cases "processLoop e jid oldv newv rids ?s1 0 0") auto
  have 1: "P ?s1" by (rule job [OF assms(1)])
  have 2: "\<forall>x \<in> set t. P x"
    by (rule processLoop_invariant [where P = P, OF pl 1]) (auto intro: assms(2-6))
  have 3: "P (last (?s1 # t))" using 1 2 by (cases "t = []") auto
  show ?thesis
    using 1 2 3 Some pl by (auto simp: processMigration_def Let_def intro!: job log)
qed

section \<open>The record statuses during processing\<close>

lemma statusKey_inject [simp]: "(statusKey jid rid = statusKey jid rid') = (rid = rid')"
  by (simp add: statusKey_def)

lemma statuses_setRecordStatus:
  "map_of (migrationRecordStatuses (setRecordStatus e jid rid st m s)) k =
     (if k = statusKey jid rid
      then map_option (\<lambda>v. v\<lparr>rs_status := st, errorMessage := orNull m,
                              updatedAt := newDate e (tick s)\<rparr>)
             (map_of (migrationRecordStatuses s) k)
      else map_of (migrationRecordStatuses s) k)"
  by (simp add: setRecordStatus_def updateMigrationRecordStatus_def update_conv'
           split: option.split)

lemma statusOf_setRecordStatus:
  "statusOf jid rid' (setRecordStatus e jid rid st m s) =
     (if rid' = rid then map_option (\<lambda>_. st) (statusOf jid rid s) else statusOf jid rid' s)"
  by (simp add: statusOf_def statuses_setRecordStatus option.map_comp comp_def)

lemma statusOf_unchanged [simp]:
  "statusOf jid rid (logActivity e ty msg det s) = statusOf jid rid s"
  "statusOf jid rid (setJobStatus e jid' st s) = statusOf jid rid s"
  "statusOf jid rid (updateMigrationJobProgress jid' c f s) = statusOf jid rid s"
  "statusOf jid rid (snd (cfUpdateDnsRecord e req s)) = statusOf jid rid s"
  "statusOf jid rid (saveDnsRecords rs s) = statusOf jid rid s"
  by (simp_all add: statusOf_def)

text \<open>One iteration, seen from the record statuses.\<close>

lemma statusOf_processRecord:
  assumes pr: "processRecord e jid oldv newv rid s c f = (t, c', f')"
  shows "statusOf jid rid' (last t) =
           (if rid' = rid
            then map_option (\<lambda>_. if c' = Suc c then ''completed'' else ''failed'')
                   (statusOf jid rid s)
            else statusOf jid rid' s)"
  using pr
  by (cases rule: processRecord_cases [of e jid rid s oldv newv c f])
     (auto simp: recordFailed_def statusOf_setRecordStatus option.map_comp comp_def)

lemma statusOf_processLoop:
  assumes "processLoop e jid oldv newv rids s c f = (t, c', f')"
  shows "(statusOf jid rid (last (s # t)) = None) = (statusOf jid rid s = None) \<and>
         (rid \<notin> set rids \<longrightarrow> statusOf jid rid (last (s # t)) = statusOf jid rid s) \<and>
         (rid \<in> set rids \<and> statusOf jid rid s \<noteq> None \<longrightarrow>
            statusOf jid rid (last (s # t)) = Some ''completed'' \<or>
            statusOf jid rid (last (s # t)) = Some ''failed'')"
  using assms
proof (induction rids arbitrary: s c f t c' f')
  case Nil
  then show ?case by simp
next
  case (Cons r rest)
  obtain t1 c1 f1 where pr: "processRecord e jid oldv newv r s c f = (t1, c1, f1)"
    by (cases "processRecord e jid oldv newv r s c f") auto
  obtain t2 where pl: "processLoop e jid oldv newv rest (last t1) c1 f1 = (t2, c', f')"
    and t: "t = t1 @ t2"
    using Cons.prems(1) pr by (auto split: prod.splits)
  have ne: "t1 \<noteq> []" by (rule jobs_processRecord(1) [OF pr])
  have last_eq: "last (s # t) = last (last t1 # t2)"
    using ne by (simp add: t)
  note step = statusOf_processRecord [OF pr, of rid]
  note ih = Cons.IH [OF pl]
  show ?case
    unfolding last_eq using step ih by (auto split: if_splits)
qed

text \<open>What the start handler leaves behind when it accepts a request.\<close>

lemma list_all_update:
  "list_all P (map snd al) \<Longrightarrow> P v \<Longrightarrow> list_all P (map snd (AList.update k v al))"
  by (induction al) auto

lemma foldl_update_list_all:
  "list_all P (map snd m0) \<Longrightarrow> \<forall>x \<in> set xs. P x \<Longrightarrow>
     list_all P (map snd (foldl (\<lambda>m x. AList.update (key x) x m) m0 xs))"
  by (induction xs arbitrary: m0) (auto intro: list_all_update)

lemma foldl_update_map_of:
  "map_of (foldl (\<lambda>m x. AList.update (key x) x m) m0 xs) k =
     (case find (\<lambda>x. key x = k) (rev xs) of Some x \<Rightarrow> Some x | None \<Rightarrow> map_of m0 k)"
  by (induction xs rule: rev_induct) (auto simp: update_conv')

section \<open>A started migration\<close>

lemma migrationStart_accepted:
  assumes "migrationStart e body s = (r, s', Some (jid, rids, oldv, newv))"
  shows "r = Json200 jid" 
    and "jid = randomUUID e (tick s)"
    and "body_recordIds body = Some rids" and "rids \<noteq> []"
    and "body_oldIp body = Some oldv" and "body_newIp body = Some newv"
    and "getMigrationJob jid s' =
           Some \<lparr>job_id = jid, oldIp = oldv, newIp = newv, totalRecords = length rids,
                 completedRecords = 0, failedRecords = 0, job_status = ''pending'',
                 createdAt = newDate e (tick s), completedAt = None\<rparr>"
    and "apiConfiguration s' = apiConfiguration s"
    and "dnsRecords s' = dnsRecords s"
    and "cfCalls s' = cfCalls s"
    and "migrationRecordStatuses s' =
           foldl (\<lambda>m st. AList.update (rs_id st) st m) (migrationRecordStatuses s)
             (map (\<lambda>rid. \<lparr>rs_id = statusKey jid rid, jobId = jid, recordId = rid,
                           rs_status = ''pending'', errorMessage = None,
                           updatedAt = newDate e (Suc (tick s))\<rparr>) rids)"
  using assms
  by (auto simp: migrationStart_def createMigrationJob_def Let_def falsy_def
        saveMigrationRecordStatus_def getMigrationJob_def update_conv'
        split: if_splits option.splits)

lemma migrationStart_rejected:
  assumes "migrationStart e body s = (r, s', None)"
  shows "r = Fail 400 ''Missing required parameters''" and "s' = s"
  using assms by (auto simp: migrationStart_def Let_def split: if_splits prod.splits)

lemma migrationStart_valid:
  assumes "body_oldIp body = Some oldv" "oldv \<noteq> []" "body_newIp body = Some newv" "newv \<noteq> []"
          "body_recordIds body = Some rids" "rids \<noteq> []"
  shows "\<exists>s'. migrationStart e body s =
           (Json200 (randomUUID e (tick s)), s', Some (randomUUID e (tick s), rids, oldv, newv))"
  using assms
  by (simp add: migrationStart_def createMigrationJob_def Let_def falsy_def)

lemma find_in_set: "find P xs = Some x \<Longrightarrow> x \<in> set xs"
  by (induction xs) (auto split: if_splits)

lemma find_holds: "find P xs = Some x \<Longrightarrow> P x"
  by (induction xs) (auto split: if_splits)

lemma statusOf_started:
  assumes "migrationStart e body s = (r, s', Some (jid, rids, oldv, newv))"
      and "rid \<in> set rids"
  shows "statusOf jid rid s' = Some ''pending''"
proof -
  let ?mk = "\<lambda>rid. \<lparr>rs_id = statusKey jid rid, jobId = jid, recordId = rid,
                      rs_status = ''pending'', errorMessage = None,
                      updatedAt = newDate e (Suc (tick s))\<rparr>"
  have "\<exists>x. find (\<lambda>x. rs_id x = statusKey jid rid) (rev (map ?mk rids)) = Some x \<and>
            rs_status x = ''pending''"
  proof (cases "find (\<lambda>x. rs_id x = statusKey jid rid) (rev (map ?mk rids))")
    case None
    then show ?thesis using assms(2) by (auto simp: find_None_iff)
  next
    case (Some x)
    then have "x \<in> set (rev (map ?mk rids))" by (rule find_in_set)
    then show ?thesis using Some by auto
  qed
  then show ?thesis
    by (auto simp: statusOf_def migrationStart_accepted(11) [OF assms(1)] foldl_update_map_of)
qed

lemma statusesOk_started:
  assumes "migrationStart e body s = (r, s', Some (jid, rids, oldv, newv))"
      and "statusesOk s"
  shows "statusesOk s'"
  using assms(2) unfolding statusesOk_def migrationStart_accepted(11) [OF assms(1)]
  by (rule foldl_update_list_all) (simp add: statusOk_def)

text \<open>A whole run, seen from the job.\<close>

lemma job_processMigration:
  assumes cfg: "getApiConfiguration s = Some cfgv"
      and job: "getMigrationJob jid s = Some j"
      and zero: "completedRecords j = 0" "failedRecords j = 0"
  shows "(\<exists>j'. getMigrationJob jid (last (processMigration e jid rids oldv newv s)) = Some j' \<and>
               totalRecords j' = totalRecords j \<and> job_status j' = ''completed'' \<and>
               completedAt j' \<noteq> None \<and>
               completedRecords j' + failedRecords j' = length rids) \<and>
         (\<forall>x \<in> set (processMigration e jid rids oldv newv s).
             \<exists>j'. getMigrationJob jid x = Some j' \<and> totalRecords j' = totalRecords j \<and>
               (job_status j' = ''running'' \<or> job_status j' = ''completed'') \<and>
               completedRecords j' + failedRecords j' \<le> length rids) \<and>
         successively (countersMonotone jid) (s # processMigration e jid rids oldv newv s)"
proof -
  let ?s1 = "setJobStatus e jid ''running'' s"
  let ?j1 = "j\<lparr>job_status := ''running''\<rparr>"
  obtain t c f where pl: "processLoop e jid oldv newv rids ?s1 0 0 = (t, c, f)"
    by (cases "processLoop e jid oldv newv rids ?s1 0 0") auto
  have j1: "getMigrationJob jid ?s1 = Some ?j1"
    using job by (simp add: getMigrationJob_status)
  have loop: "c + f = 0 + 0 + length rids \<and> 0 \<le> c \<and> 0 \<le> f \<and>
         (\<exists>j'. getMigrationJob jid (last (?s1 # t)) = Some j' \<and>
               totalRecords j' = totalRecords ?j1 \<and> job_status j' = job_status ?j1 \<and>
               completedRecords j' = c \<and> failedRecords j' = f) \<and>
         (\<forall>x \<in> set t. \<exists>j'. getMigrationJob jid x = Some j' \<and>
               totalRecords j' = totalRecords ?j1 \<and> job_status j' = job_status ?j1 \<and>
               completedRecords j' + failedRecords j' \<le> c + f) \<and>
         successively (countersMonotone jid) (?s1 # t)"
    by (rule job_processLoop [OF pl j1]) (simp_all add: zero)
  then obtain jl where jl: "getMigrationJob jid (last (?s1 # t)) = Some jl"
      "totalRecords jl = totalRecords j" "completedRecords jl = c" "failedRecords jl = f"
    by auto
  let ?sl = "last (?s1 # t)"
  let ?s2 = "setJobStatus e jid ''completed'' ?sl"
  let ?s3 = "logActivity e ''success''
               (''Migration completed: '' @ showNat c @ '' success, '' @ showNat f @ '' failed'')
               None ?s2"
  have tr: "processMigration e jid rids oldv newv s = (?s1 # t) @ [?s2, ?s3]"
    using cfg pl by (simp add: processMigration_def Let_def)
  let ?j2 = "jl\<lparr>job_status := ''completed'', completedAt := Some (newDate e (tick ?sl))\<rparr>"
  have j2: "getMigrationJob jid ?s2 = Some ?j2"
    using jl(1) by (simp add: getMigrationJob_status)
  have j3: "getMigrationJob jid ?s3 = Some ?j2"
    using j2 by (simp add: getMigrationJob_def)
  have m12: "countersMonotone jid ?sl ?s2"
    using jl(1) j2 by (simp add: countersMonotone_jobs)
  have m23: "countersMonotone jid ?s2 ?s3"
    using j2 j3 by (simp add: countersMonotone_jobs)
  have m01: "countersMonotone jid s ?s1"
    using job j1 by (simp add: countersMonotone_jobs)
  have "successively (countersMonotone jid) ((?s1 # t) @ [?s2, ?s3])"
    using loop m12 m23 by (intro successively_join) simp_all
  then have su: "successively (countersMonotone jid) (s # (?s1 # t) @ [?s2, ?s3])"
    using m01 by simp
  have all: "\<exists>j'. getMigrationJob jid x = Some j' \<and> totalRecords j' = totalRecords j \<and>
               (job_status j' = ''running'' \<or> job_status j' = ''completed'') \<and>
               completedRecords j' + failedRecords j' \<le> length rids"
    if "x \<in> set ((?s1 # t) @ [?s2, ?s3])" for x
  proof -
    from that consider "x = ?s1" | "x \<in> set t" | "x = ?s2" | "x = ?s3" by auto
    then show ?thesis
    proof cases
      case 1 then show ?thesis using j1 zero by simp
    next
      case 2 then show ?thesis using loop by fastforce
    next
      case 3 then show ?thesis using j2 jl loop by simp
    next
      case 4 then show ?thesis using j3 jl loop by simp
    qed
  qed
  have fin: "last (processMigration e jid rids oldv newv s) = ?s3"
    unfolding tr by simp
  show ?thesis
    unfolding fin using j3 jl loop su all
    unfolding tr by simp
qed

section \<open>A whole run\<close>

lemma startsJob_accepted:
  assumes "startsJob body"
  obtains s' oldv newv where
    "migrationStart e body s =
       (Json200 (randomUUID e (tick s)), s',
        Some (randomUUID e (tick s), the (body_recordIds body), oldv, newv))"
    and "migrationTrace e body s =
       s' # processMigration e (randomUUID e (tick s)) (the (body_recordIds body)) oldv newv s'"
proof -
  from assms obtain oldv newv rids where b: "body_oldIp body = Some oldv" "oldv \<noteq> []"
      "body_newIp body = Some newv" "newv \<noteq> []" "body_recordIds body = Some rids" "rids \<noteq> []"
    by (auto simp: startsJob_def)
  from migrationStart_valid [OF b, of e s] obtain s' where
    s': "migrationStart e body s =
           (Json200 (randomUUID e (tick s)), s', Some (randomUUID e (tick s), rids, oldv, newv))"
    by auto
  show ?thesis
    by (rule that [of s' oldv newv]) (simp_all add: s' b migrationTrace_def)
qed

lemma job_processMigration_none:
  assumes cfg: "getApiConfiguration s = None"
      and job: "getMigrationJob jid s = Some j"
  shows "\<exists>s1 s2. processMigration e jid rids oldv newv s = [s1, s2] \<and>
           getMigrationJob jid s1 =
             Some (j\<lparr>job_status := ''failed'', completedAt := Some (newDate e (tick s))\<rparr>) \<and>
           getMigrationJob jid s2 =
             Some (j\<lparr>job_status := ''failed'', completedAt := Some (newDate e (tick s))\<rparr>) \<and>
           migrationRecordStatuses s2 = migrationRecordStatuses s \<and>
           cfCalls s2 = cfCalls s \<and> dnsRecords s2 = dnsRecords s"
proof -
  let ?s1 = "setJobStatus e jid ''failed'' s"
  let ?s2 = "logActivity e ''error'' (''Migration failed: '' @ ''No API configuration found'')
               None ?s1"
  have tr: "processMigration e jid rids oldv newv s = [?s1, ?s2]"
    using cfg by (simp add: processMigration_def)
  have j1: "getMigrationJob jid ?s1 =
              Some (j\<lparr>job_status := ''failed'', completedAt := Some (newDate e (tick s))\<rparr>)"
    using job by (simp add: getMigrationJob_status)
  have j2: "getMigrationJob jid ?s2 = getMigrationJob jid ?s1"
    by (simp add: getMigrationJob_def)
  show ?thesis
    unfolding tr using j1 j2 by simp
qed

lemma statusOf_processMigration:
  assumes cfg: "getApiConfiguration s = Some cfgv"
      and rid: "rid \<in> set rids" and pre: "statusOf jid rid s \<noteq> None"
  shows "statusOf jid rid (last (processMigration e jid rids oldv newv s)) = Some ''completed'' \<or>
         statusOf jid rid (last (processMigration e jid rids oldv newv s)) = Some ''failed''"
proof -
  let ?s1 = "setJobStatus e jid ''running'' s"
  obtain t c f where pl: "processLoop e jid oldv newv rids ?s1 0 0 = (t, c, f)"
    by (cases "processLoop e jid oldv newv rids ?s1 0 0") auto
  have "statusOf jid rid (last (processMigration e jid rids oldv newv s)) =
          statusOf jid rid (last (?s1 # t))"
    using cfg pl by (simp add: processMigration_def Let_def)
  moreover have "statusOf jid rid ?s1 \<noteq> None" using pre by simp
  ultimately show ?thesis
    using statusOf_processLoop [OF pl, of rid] rid by auto
qed

lemma statusesOk_setRecordStatus:
  assumes "statusesOk s" and "(st = ''failed'') = (orNull m \<noteq> None)"
  shows "statusesOk (setRecordStatus e jid rid st m s)"
  using assms
  by (auto simp: statusesOk_def setRecordStatus_def updateMigrationRecordStatus_def
        statusOk_def split: option.split intro!: list_all_update)

lemma statusesOk_trace:
  assumes "statusesOk s"
  shows "\<forall>x \<in> set (processMigration e jid rids oldv newv s). statusesOk x"
  by (rule processMigration_invariant [where P = statusesOk, OF assms])
     (auto simp: statusesOk_def intro: statusesOk_setRecordStatus [unfolded statusesOk_def])

section \<open>The entries a request creates, and an example run\<close>

lemma started_entry:
  assumes "migrationStart e body s = (r, s', Some (jid, rids, oldv, newv))"
      and "rid \<in> set rids"
  shows "map_of (migrationRecordStatuses s') (statusKey jid rid) =
           Some \<lparr>rs_id = statusKey jid rid, jobId = jid, recordId = rid,
                 rs_status = ''pending'', errorMessage = None,
                 updatedAt = newDate e (Suc (tick s))\<rparr>"
proof -
  let ?mk = "\<lambda>rid. \<lparr>rs_id = statusKey jid rid, jobId = jid, recordId = rid,
                      rs_status = ''pending'', errorMessage = None,
                      updatedAt = newDate e (Suc (tick s))\<rparr>"
  have "find (\<lambda>x. rs_id x = statusKey jid rid) (rev (map ?mk rids)) = Some (?mk rid)"
  proof (cases "find (\<lambda>x. rs_id x = statusKey jid rid) (rev (map ?mk rids))")
    case None
    then show ?thesis using assms(2) by (auto simp: find_None_iff)
  next
    case (Some x)
    have "x \<in> set (rev (map ?mk rids))" using Some by (rule find_in_set)
    moreover have "rs_id x = statusKey jid rid" using Some by (rule find_holds)
    ultimately show ?thesis using Some by auto
  qed
  then show ?thesis
    by (simp add: migrationStart_accepted(11) [OF assms(1)] foldl_update_map_of)
qed

lemma startsJob_body0: "startsJob body0"
  by (simp add: startsJob_def body0_def)

text \<open>
  The run of the specification's partial-failure scenario, computed: three records, the
  provider rejects the second.
\<close>

lemma scenario_partial_failure:
  "map (\<lambda>x. (map_option (\<lambda>j. (job_status j, completedRecords j, failedRecords j))
                  (getMigrationJob ''job0'' x),
               map (\<lambda>(k, v). (k, rs_status v, errorMessage v)) (migrationRecordStatuses x),
               map (\<lambda>r. (rec_id r, content r)) (getDnsRecords x),
               map log_message (activityLog x)))
     [last (migrationTrace env0 (body0\<lparr>body_recordIds := Some [''r1'', ''r2'', ''r3'']\<rparr>) s0)] =
   [(Some (''completed'', 2, 1),
     [(''job0-r1'', ''completed'', None),
      (''job0-r2'', ''failed'', Some ''Cloudflare API error: 500 Internal Server Error''),
      (''job0-r3'', ''completed'', None)],
     [(''r1'', ''2.2.2.2''), (''r2'', ''1.1.1.1''), (''r3'', ''2.2.2.2'')],
     [''Migration completed: 2 success, 1 failed'',
      ''Updated DNS record for h3'',
      ''Failed to update DNS record: Cloudflare API error: 500 Internal Server Error'',
      ''Updated DNS record for h1'',
      ''Starting migration for 3 DNS records''])]"
  by code_simp

section \<open>Counters and error messages\<close>

lemma counters_processRecord:
  "case processRecord e jid oldv newv rid x c f of
     (t, c', f') \<Rightarrow>
       (c' = Suc c \<and> f' = f \<or> c' = c \<and> f' = Suc f) \<and>
       counters jid (last t) = map_option (\<lambda>(a, b, n). (c', f', n)) (counters jid x)"
proof -
  obtain t c' f' where pr: "processRecord e jid oldv newv rid x c f = (t, c', f')"
    by (cases "processRecord e jid oldv newv rid x c f") auto
  note jp = jobs_processRecord [OF pr]
  have "counters jid (last t) = counters jid (updateMigrationJobProgress jid c' f' x)"
    using getMigrationJob_cong [OF jp(4), of jid] by (simp add: counters_def)
  also have "\<dots> = map_option (\<lambda>(a, b, n). (c', f', n)) (counters jid x)"
    by (simp add: counters_def getMigrationJob_progress option.map_comp comp_def)
  finally show ?thesis using jp(2) by (simp add: pr)
qed



lemma statusesOk_migrationTrace:
  assumes "statusesOk s"
  shows "\<forall>x \<in> set (migrationTrace e body s). statusesOk x"
proof (cases "migrationStart e body s")
  case (fields r s' task)
  show ?thesis
  proof (cases task)
    case None
    then show ?thesis
      using fields assms migrationStart_rejected(2) [of e body s r s']
      by (simp add: migrationTrace_def)
  next
    case (Some a)
    obtain jid rids ov nv where a: "a = (jid, rids, ov, nv)" by (cases a)
    have st: "migrationStart e body s = (r, s', Some (jid, rids, ov, nv))"
      using fields Some a by simp
    have "statusesOk s'" by (rule statusesOk_started [OF st assms])
    then show ?thesis
      using statusesOk_trace [of s' e jid rids ov nv] st
      by (simp add: migrationTrace_def)
  qed
qed

text \<open>
  Claim C8. When every stored record status has an error message exactly if its status
  is \<open>failed\<close>, the same holds in every state of a migration, from the handler's answer
  to the end of the run; and the entries that the handler creates are \<open>pending\<close> with no
  error message.
\<close>

theorem error_message_iff_failed:
  assumes "statusesOk s"
  shows "(\<forall>x \<in> set (migrationTrace e body s).
            \<forall>v \<in> set (map snd (migrationRecordStatuses x)).
              (errorMessage v \<noteq> None) = (rs_status v = ''failed'')) \<and>
         (startsJob body \<longrightarrow>
            (\<forall>rid \<in> set (the (body_recordIds body)).
               \<exists>v. map_of (migrationRecordStatuses (hd (migrationTrace e body s)))
                      (statusKey (randomUUID e (tick s)) rid) = Some v \<and>
                    rs_status v = ''pending'' \<and> errorMessage v = None))"
proof (intro conjI impI)
  show "\<forall>x \<in> set (migrationTrace e body s).
            \<forall>v \<in> set (map snd (migrationRecordStatuses x)).
              (errorMessage v \<noteq> None) = (rs_status v = ''failed'')"
    using statusesOk_migrationTrace [OF assms, of e body]
    by (simp add: statusesOk_def statusOk_def list_all_iff)
next
  assume "startsJob body"
  then obtain s' ov nv where
    st: "migrationStart e body s =
           (Json200 (randomUUID e (tick s)), s',
            Some (randomUUID e (tick s), the (body_recordIds body), ov, nv))"
    and tr: "migrationTrace e body s =
           s' # processMigration e (randomUUID e (tick s)) (the (body_recordIds body)) ov nv s'"
    by (rule startsJob_accepted)
  show "\<forall>rid \<in> set (the (body_recordIds body)).
               \<exists>v. map_of (migrationRecordStatuses (hd (migrationTrace e body s)))
                      (statusKey (randomUUID e (tick s)) rid) = Some v \<and>
                    rs_status v = ''pending'' \<and> errorMessage v = None"
    unfolding tr using started_entry [OF st] by simp
qed

theorem error_message_iff_failed_witness:
  "statusesOk s0 \<and> startsJob body0 \<and>
   list_all (\<lambda>x. list_all (\<lambda>v. (errorMessage v \<noteq> None) = (rs_status v = ''failed''))
                   (map snd (migrationRecordStatuses x)))
     (migrationTrace env0 body0 s0) \<and>
   (\<exists>v. map_of (migrationRecordStatuses (hd (migrationTrace env0 body0 s0)))
           (statusKey (randomUUID env0 (tick s0)) ''r2'') = Some v \<and>
        rs_status v = ''pending'' \<and> errorMessage v = None)"
proof -
  have ok: "statusesOk s0"
    by (simp add: statusesOk_def s0_def saveDnsRecords_def newMemStorage_def)
  have r2: "''r2'' \<in> set (the (body_recordIds body0))" by (simp add: body0_def)
  show ?thesis
    using error_message_iff_failed [OF ok, of env0 body0] ok startsJob_body0 r2
    by (simp add: list_all_iff)
qed

section \<open>The cached listing and the update calls\<close>

lemma update_fresh: "k \<notin> fst ` set al \<Longrightarrow> AList.update k v al = al @ [(k, v)]"
  by (induction al) auto

lemma foldl_update_distinct:
  "distinct (map key xs) \<Longrightarrow> \<forall>x \<in> set xs. key x \<notin> fst ` set m0 \<Longrightarrow>
     foldl (\<lambda>m x. AList.update (key x) x m) m0 xs = m0 @ map (\<lambda>x. (key x, x)) xs"
proof (induction xs arbitrary: m0)
  case Nil
  show ?case by simp
next
  case (Cons x xs)
  have 1: "AList.update (key x) x m0 = m0 @ [(key x, x)]"
    using Cons.prems(2) by (simp add: update_fresh)
  have 2: "\<forall>y \<in> set xs. key y \<notin> fst ` set (m0 @ [(key x, x)])"
    using Cons.prems by (force simp: image_iff)
  show ?case
    using Cons.IH [OF _ 2] Cons.prems(1) by (simp add: 1)
qed

lemma getDnsRecords_saveDnsRecords:
  "distinct (map rec_id rs) \<Longrightarrow> getDnsRecords (saveDnsRecords rs s) = rs"
  using foldl_update_distinct [of rec_id rs "[]"]
  by (simp add: getDnsRecords_def saveDnsRecords_def comp_def)

text \<open>Whatever is saved, the map holds one snapshot per id, under that id.\<close>

lemma keyed_update:
  "\<forall>(k, v) \<in> set al. key v = k \<Longrightarrow> key x = j \<Longrightarrow>
     \<forall>(k, v) \<in> set (AList.update j x al). key v = k"
  by (induction al) auto

lemma keyed_foldl:
  "distinct (map fst m0) \<Longrightarrow> \<forall>(k, v) \<in> set m0. key v = k \<Longrightarrow>
     distinct (map fst (foldl (\<lambda>m x. AList.update (key x) x m) m0 xs)) \<and>
     (\<forall>(k, v) \<in> set (foldl (\<lambda>m x. AList.update (key x) x m) m0 xs). key v = k)"
proof (induction xs arbitrary: m0)
  case Nil
  then show ?case by simp
next
  case (Cons x xs)
  show ?case
    using Cons.IH [of "AList.update (key x) x m0"] Cons.prems
    by (simp add: distinct_update keyed_update)
qed

lemma wfDns_saveDnsRecords: "wfDns (saveDnsRecords rs s)"
proof -
  let ?m = "foldl (\<lambda>m r. AList.update (rec_id r) r m) [] rs"
  have d: "distinct (map fst ?m)" and k: "\<forall>(k, v) \<in> set ?m. rec_id v = k"
    using keyed_foldl [of "[]" rec_id rs] by simp_all
  have e: "map rec_id (map snd ?m) = map fst ?m"
    using k by (induction ?m) auto
  have "distinct (map rec_id (map snd ?m))"
    unfolding e by (rule d)
  then show ?thesis
    unfolding wfDns_def getDnsRecords_def saveDnsRecords_def by simp
qed

lemma wfDns_newMemStorage: "wfDns newMemStorage"
  by (simp add: wfDns_def getDnsRecords_def newMemStorage_def)

lemma wfDns_unchanged:
  "dnsRecords x = dnsRecords s \<Longrightarrow> wfDns x = wfDns s"
  by (simp add: wfDns_def getDnsRecords_def)

lemma ids_setContent [simp]: "map rec_id (setContent rid v rs) = map rec_id rs"
  by (induction rs) auto

lemma setContent_map:
  "distinct (map rec_id rs) \<Longrightarrow>
     setContent rid v rs = map (\<lambda>x. if rec_id x = rid then x\<lparr>content := v\<rparr> else x) rs"
proof (induction rs)
  case Nil
  show ?case by simp
next
  case (Cons r rs)
  show ?case
  proof (cases "rec_id r = rid")
    case True
    then have "\<forall>x \<in> set rs. rec_id x \<noteq> rid" using Cons.prems by (force simp: image_iff)
    then have "map (\<lambda>x. if rec_id x = rid then x\<lparr>content := v\<rparr> else x) rs = rs"
      by (induction rs) auto
    then show ?thesis using True by simp
  next
    case False
    then show ?thesis using Cons by simp
  qed
qed

lemma patchOf_content [simp]:
  "patchOf newv (r\<lparr>content := x\<rparr>) = patchOf newv r"
  "patch_content (patchOf newv r) = newv"
  by (simp_all add: patchOf_def)

lemma find_setContent:
  "map_option (patchOf newv) (find (\<lambda>r. rec_id r = rid') (setContent rid v rs)) =
   map_option (patchOf newv) (find (\<lambda>r. rec_id r = rid') rs)"
  by (induction rs) auto

text \<open>One iteration, seen from the cached listing and the provider.\<close>

lemma dns_processRecord:
  assumes pr: "processRecord e jid oldv newv rid s c f = (t, c', f')"
      and wf: "wfDns s"
  shows "getDnsRecords (last t) =
           (if c' = Suc c then setContent rid newv (getDnsRecords s) else getDnsRecords s)"
    and "wfDns (last t)"
proof -
  have d: "distinct (map rec_id (setContent rid newv (getDnsRecords s)))"
    using wf by (simp add: wfDns_def)
  show "getDnsRecords (last t) =
           (if c' = Suc c then setContent rid newv (getDnsRecords s) else getDnsRecords s)"
    using pr
    by (cases rule: processRecord_cases [of e jid rid s oldv newv c f])
       (auto simp: recordFailed_def getDnsRecords_saveDnsRecords [OF d])
  then show "wfDns (last t)"
    using wf by (simp add: wfDns_def split: if_splits)
qed

lemma calls_processRecord:
  assumes pr: "processRecord e jid oldv newv rid s c f = (t, c', f')"
  shows "cfCalls (last t) =
           cfCalls s @ (case find (\<lambda>r. rec_id r = rid) (getDnsRecords s) of
                          None \<Rightarrow> [] | Some r \<Rightarrow> [patchOf newv r])"
  using pr
  by (cases rule: processRecord_cases [of e jid rid s oldv newv c f])
     (auto simp: recordFailed_def)

lemma calls_processLoop:
  assumes "processLoop e jid oldv newv rids s c f = (t, c', f')" and "wfDns s"
  shows "cfCalls (last (s # t)) =
           cfCalls s @
           List.map_filter
             (\<lambda>rid. map_option (patchOf newv) (find (\<lambda>r. rec_id r = rid) (getDnsRecords s)))
             rids"
  using assms
proof (induction rids arbitrary: s c f t c' f')
  case Nil
  then show ?case by (simp add: List.map_filter_simps)
next
  case (Cons rid rest)
  obtain t1 c1 f1 where pr: "processRecord e jid oldv newv rid s c f = (t1, c1, f1)"
    by (cases "processRecord e jid oldv newv rid s c f") auto
  obtain t2 where pl: "processLoop e jid oldv newv rest (last t1) c1 f1 = (t2, c', f')"
    and t: "t = t1 @ t2"
    using Cons.prems(1) pr by (auto split: prod.splits)
  have ne: "t1 \<noteq> []" by (rule jobs_processRecord(1) [OF pr])
  have last_eq: "last (s # t) = last (last t1 # t2)"
    using ne by (simp add: t)
  note dns = dns_processRecord [OF pr Cons.prems(2)]
  have same: "map_option (patchOf newv) (find (\<lambda>r. rec_id r = rid') (getDnsRecords (last t1))) =
              map_option (patchOf newv) (find (\<lambda>r. rec_id r = rid') (getDnsRecords s))" for rid'
    by (simp add: dns(1) find_setContent)
  show ?case
    unfolding last_eq Cons.IH [OF pl dns(2)] calls_processRecord [OF pr]
    by (simp add: same List.map_filter_simps split: option.split)
qed

section \<open>Update calls and the snapshot after an update\<close>

lemma calls_processMigration:
  assumes cfg: "getApiConfiguration s = Some cfgv" and wf: "wfDns s"
  shows "cfCalls (last (processMigration e jid rids oldv newv s)) =
           cfCalls s @
           List.map_filter
             (\<lambda>rid. map_option (patchOf newv) (find (\<lambda>r. rec_id r = rid) (getDnsRecords s)))
             rids"
proof -
  let ?s1 = "setJobStatus e jid ''running'' s"
  obtain t c f where pl: "processLoop e jid oldv newv rids ?s1 0 0 = (t, c, f)"
    by (cases "processLoop e jid oldv newv rids ?s1 0 0") auto
  have wf1: "wfDns ?s1" using wf by (simp add: wfDns_def)
  have "cfCalls (last (processMigration e jid rids oldv newv s)) = cfCalls (last (?s1 # t))"
    using cfg pl by (simp add: processMigration_def Let_def)
  then show ?thesis
    using calls_processLoop [OF pl wf1] by simp
qed

text \<open>
  Claim C6. In a run that starts its loop, the update calls sent to the provider are,
  in the order of the request, one call for each requested id that has a snapshot in
  the cached listing, built from that snapshot's zone, id, type, name, ttl and proxied
  flag with the new value as content. Neither the snapshot's content nor the old value
  of the request has any part in it.
\<close>

theorem unconditional_rewrite:
  assumes "startsJob body" and "body_recordIds body = Some rids"
      and "body_newIp body = Some newv"
      and "wfDns s" and "getApiConfiguration s \<noteq> None"
  shows "cfCalls (last (migrationTrace e body s)) =
           cfCalls s @
           List.map_filter
             (\<lambda>rid. map_option (patchOf newv) (find (\<lambda>r. rec_id r = rid) (getDnsRecords s)))
             rids \<and>
         (\<forall>r x. patchOf newv (r\<lparr>content := x\<rparr>) = patchOf newv r \<and>
                patch_content (patchOf newv r) = newv)"
proof -
  obtain s' ov nv where
    st: "migrationStart e body s =
           (Json200 (randomUUID e (tick s)), s', Some (randomUUID e (tick s), rids, ov, nv))"
    and tr: "migrationTrace e body s =
           s' # processMigration e (randomUUID e (tick s)) rids ov nv s'"
    using startsJob_accepted [OF assms(1), of e s] assms(2) by auto
  note acc = migrationStart_accepted [OF st]
  have nv: "nv = newv" using acc(6) assms(3) by simp
  obtain cfgv where c: "getApiConfiguration s' = Some cfgv"
    using assms(5) by (auto simp: getApiConfiguration_def acc(8))
  have wf: "wfDns s'" using assms(4) wfDns_unchanged [OF acc(9)] by simp
  have ne: "processMigration e (randomUUID e (tick s)) rids ov nv s' \<noteq> []"
    using c by (simp add: processMigration_def Let_def split: prod.split)
  have g: "getDnsRecords s' = getDnsRecords s" by (simp add: getDnsRecords_def acc(9))
  have "cfCalls (last (migrationTrace e body s)) =
          cfCalls s' @
           List.map_filter
             (\<lambda>rid. map_option (patchOf nv) (find (\<lambda>r. rec_id r = rid) (getDnsRecords s')))
             rids"
    unfolding tr using calls_processMigration [OF c wf, of e "randomUUID e (tick s)" rids ov nv] ne
    by simp
  then have "cfCalls (last (migrationTrace e body s)) =
          cfCalls s @
           List.map_filter
             (\<lambda>rid. map_option (patchOf newv) (find (\<lambda>r. rec_id r = rid) (getDnsRecords s)))
             rids"
    unfolding nv g acc(10) .
  then show ?thesis by simp
qed

lemma wfDns_s0: "wfDns s0"
  unfolding s0_def by (rule wfDns_saveDnsRecords)

lemma getDnsRecords_s0: "getDnsRecords s0 = recs0"
  unfolding s0_def by (rule getDnsRecords_saveDnsRecords) code_simp

lemma getApiConfiguration_s0: "getApiConfiguration s0 \<noteq> None"
  by (simp add: s0_def getApiConfiguration_def newMemStorage_def)

theorem unconditional_rewrite_witness:
  "startsJob (body0\<lparr>body_oldIp := Some ''9.9.9.9''\<rparr>) \<and> wfDns s0 \<and>
   getApiConfiguration s0 \<noteq> None \<and>
   map (\<lambda>c. (patch_recordId c, patch_content c))
     (cfCalls (last (migrationTrace env0 (body0\<lparr>body_oldIp := Some ''9.9.9.9''\<rparr>) s0))) =
   [(''r1'', ''2.2.2.2''), (''r2'', ''2.2.2.2''), (''r3'', ''2.2.2.2'')]"
proof -
  have b: "startsJob (body0\<lparr>body_oldIp := Some ''9.9.9.9''\<rparr>)"
    by (simp add: startsJob_def body0_def)
  have r: "body_recordIds (body0\<lparr>body_oldIp := Some ''9.9.9.9''\<rparr>) =
             Some [''r1'', ''r2'', ''r9'', ''r3'']"
    and n: "body_newIp (body0\<lparr>body_oldIp := Some ''9.9.9.9''\<rparr>) = Some ''2.2.2.2''"
    by (simp_all add: body0_def)
  have c0: "cfCalls s0 = []"
    by (simp add: s0_def newMemStorage_def)
  have ev: "map (\<lambda>c. (patch_recordId c, patch_content c))
              (List.map_filter
                (\<lambda>rid. map_option (patchOf ''2.2.2.2'') (find (\<lambda>r. rec_id r = rid) recs0))
                [''r1'', ''r2'', ''r9'', ''r3'']) =
            [(''r1'', ''2.2.2.2''), (''r2'', ''2.2.2.2''), (''r3'', ''2.2.2.2'')]"
    by code_simp
  show ?thesis
    using unconditional_rewrite [OF b r n wfDns_s0 getApiConfiguration_s0, of env0]
          b wfDns_s0 getApiConfiguration_s0 ev
    by (simp add: c0 getDnsRecords_s0)
qed

text \<open>
  Claim C9. In a state whose cached listing holds one snapshot per record id, when the
  provider accepts the update of a record, the listing after the iteration is the
  listing before it with the content of that record's snapshot replaced by the new
  value: every other field of the snapshot, every other snapshot and the order are as
  before. The iteration counts the record as completed. Every listing that is saved
  holds one snapshot per record id, and an iteration keeps that.
\<close>

theorem snapshot_frame:
  assumes "wfDns s" and "find (\<lambda>r. rec_id r = rid) (getDnsRecords s) = Some r"
      and "updateDnsRecord e (Suc (tick s)) (patchOf newv r) = None"
  shows "getDnsRecords (last (fst (processRecord e jid oldv newv rid s c f))) =
           map (\<lambda>x. if rec_id x = rid then x\<lparr>content := newv\<rparr> else x) (getDnsRecords s) \<and>
         snd (processRecord e jid oldv newv rid s c f) = (Suc c, f) \<and>
         wfDns (last (fst (processRecord e jid oldv newv rid s c f))) \<and>
         (\<forall>rs x. wfDns (saveDnsRecords rs x))"
proof -
  obtain t c' f' where pr: "processRecord e jid oldv newv rid s c f = (t, c', f')"
    by (cases "processRecord e jid oldv newv rid s c f") auto
  have cf: "c' = Suc c \<and> f' = f"
    using pr assms(2,3)
    by (cases rule: processRecord_cases [of e jid rid s oldv newv c f]) auto
  have d: "distinct (map rec_id (getDnsRecords s))" using assms(1) by (simp add: wfDns_def)
  note dns = dns_processRecord [OF pr assms(1)]
  show ?thesis
    using dns cf by (simp add: pr setContent_map [OF d] wfDns_saveDnsRecords)
qed

theorem snapshot_frame_witness:
  "wfDns s0 \<and>
   map (\<lambda>x. (rec_id x, content x))
     (getDnsRecords (last (fst (processRecord env0 ''job0'' ''1.1.1.1'' ''2.2.2.2'' ''r1'' s0 0 0)))) =
   [(''r1'', ''2.2.2.2''), (''r2'', ''1.1.1.1''), (''r3'', ''1.1.1.1'')] \<and>
   snd (processRecord env0 ''job0'' ''1.1.1.1'' ''2.2.2.2'' ''r1'' s0 0 0) = (1, 0)"
proof -
  let ?r1 = "\<lparr>rec_id = ''r1'', zoneId = ''z'', zoneName = ''example.com'', rec_name = ''h1'',
              rec_type = ''A'', content = ''1.1.1.1'', ttl = 1, proxied = False,
              locked = False\<rparr>"
  have f: "find (\<lambda>r. rec_id r = ''r1'') (getDnsRecords s0) = Some ?r1"
    unfolding getDnsRecords_s0 by code_simp
  have u: "updateDnsRecord env0 (Suc (tick s0)) (patchOf ''2.2.2.2'' ?r1) = None"
    by (simp add: env0_def patchOf_def)
  have ev: "map (\<lambda>x. (rec_id x, content x))
              (map (\<lambda>x. if rec_id x = ''r1'' then x\<lparr>content := ''2.2.2.2''\<rparr> else x) recs0) =
            [(''r1'', ''2.2.2.2''), (''r2'', ''1.1.1.1''), (''r3'', ''1.1.1.1'')]"
    by code_simp
  show ?thesis
    using snapshot_frame [OF wfDns_s0 f u, of "''job0''" "''1.1.1.1''" 0 0] wfDns_s0 ev
    by (simp add: getDnsRecords_s0)
qed

section \<open>The activity log\<close>

lemma activityLog_add:
  "activityLog (addActivityLogEntry u e s) = take 100 (logEntryOf u e # activityLog s)"
  by (simp add: addActivityLogEntry_def Let_def)

lemma take_append_take: "take 100 (xs @ take 100 ys) = take 100 (xs @ ys)"
  by (simp add: min_def)

lemma activityLog_writes:
  "activityLog (foldl (\<lambda>s (u, e). addActivityLogEntry u e s) s ws) =
     (if ws = [] then activityLog s
      else take 100 (rev (map (\<lambda>(u, e). logEntryOf u e) ws) @ activityLog s))"
proof (induction ws arbitrary: s)
  case Nil
  show ?case by simp
next
  case (Cons w ws)
  obtain u e where w: "w = (u, e)" by (cases w)
  show ?case
    using take_append_take [of "rev (map (\<lambda>(u, e). logEntryOf u e) ws)"
                               "logEntryOf u e # activityLog s"]
    by (simp add: Cons.IH w activityLog_add)
qed

text \<open>
  Claim C7. The activity log never holds more than 100 entries and the newest entry is
  its head: adding an entry puts it in front of the entries already there and keeps the
  first 100 of the result, so with 100 entries present the last (oldest) one is dropped.
  After 101 entries have been written, whatever the log held before, reading the log
  with a limit of at least 100 returns the last 100 entries written, the newest first.
\<close>

theorem activity_log_bounded_newest_first:
  "length (activityLog (addActivityLogEntry u e s)) \<le> 100 \<and>
   activityLog (addActivityLogEntry u e s) = take 100 (logEntryOf u e # activityLog s) \<and>
   (length (activityLog s) = 100 \<longrightarrow>
      activityLog (addActivityLogEntry u e s) = logEntryOf u e # butlast (activityLog s)) \<and>
   (length ws = 101 \<and> 100 \<le> limit \<longrightarrow>
      getActivityLog limit (foldl (\<lambda>s (u, e). addActivityLogEntry u e s) s ws) =
        rev (map (\<lambda>(u, e). logEntryOf u e) (tl ws)))"
proof (intro conjI impI)
  show "length (activityLog (addActivityLogEntry u e s)) \<le> 100"
    by (simp add: activityLog_add)
  show "activityLog (addActivityLogEntry u e s) = take 100 (logEntryOf u e # activityLog s)"
    by (rule activityLog_add)
  show "activityLog (addActivityLogEntry u e s) = logEntryOf u e # butlast (activityLog s)"
    if "length (activityLog s) = 100"
    using that by (simp add: activityLog_add butlast_conv_take take_Cons')
  show "getActivityLog limit (foldl (\<lambda>s (u, e). addActivityLogEntry u e s) s ws) =
          rev (map (\<lambda>(u, e). logEntryOf u e) (tl ws))"
    if h: "length ws = 101 \<and> 100 \<le> limit"
  proof -
    from h obtain w ws' where ws: "ws = w # ws'" and len: "length ws' = 100"
      by (cases ws) auto
    have "activityLog (foldl (\<lambda>s (u, e). addActivityLogEntry u e s) s ws) =
            take 100 (rev (map (\<lambda>(u, e). logEntryOf u e) ws) @ activityLog s)"
      by (subst activityLog_writes) (simp add: ws)
    then have "activityLog (foldl (\<lambda>s (u, e). addActivityLogEntry u e s) s ws) =
            rev (map (\<lambda>(u, e). logEntryOf u e) ws')"
      by (simp add: ws len)
    moreover have "nat limit \<ge> 100" using h by linarith
    ultimately show ?thesis
      using h len by (simp add: getActivityLog_def slice0_def ws)
  qed
qed

theorem activity_log_bounded_newest_first_witness:
  "getActivityLog 150
     (foldl (\<lambda>s (u, e). addActivityLogEntry u e s) newMemStorage
        (map (\<lambda>i. (showNat i, \<lparr>in_timestamp = i, in_type = ''info'', in_message = showNat i,
                                 in_details = None\<rparr>)) [0..<101])) =
   rev (map (\<lambda>(u, e). logEntryOf u e)
     (tl (map (\<lambda>i. (showNat i, \<lparr>in_timestamp = i, in_type = ''info'', in_message = showNat i,
                                  in_details = None\<rparr>)) [0..<101])))"
  using activity_log_bounded_newest_first
    [where ws = "map (\<lambda>i. (showNat i, \<lparr>in_timestamp = i, in_type = ''info'',
                                       in_message = showNat i, in_details = None\<rparr>)) [0..<101]"
       and limit = 150 and s = newMemStorage]
  by simp

section \<open>A record without a snapshot\<close>

lemma activityLog_logActivity:
  "activityLog (logActivity e ty msg det s) =
     take 100 (logEntryOf (randomUUID e (tick s))
                 \<lparr>in_timestamp = newDate e (tick s), in_type = ty, in_message = msg,
                  in_details = det\<rparr> # activityLog s)"
  by (simp add: logActivity_def activityLog_add)

lemma activityLog_unchanged [simp]:
  "activityLog (snd (cfUpdateDnsRecord e req s)) = activityLog s"
  by simp

lemma processLoop_Cons:
  "processRecord e jid oldv newv rid s c f = (t, c1, f1) \<Longrightarrow>
     processLoop e jid oldv newv (rid # rest) s c f =
       (t @ fst (processLoop e jid oldv newv rest (last t) c1 f1),
        snd (processLoop e jid oldv newv rest (last t) c1 f1))"
  by (simp split: prod.split)

text \<open>
  Claim C5. When the cached listing has no snapshot for a record id, the iteration for
  that id makes no update call and leaves the listing as it is; it sets the record's
  status to \<open>failed\<close> with the error message \<open>Record not found\<close>, puts an \<open>error\<close> entry
  in front of the activity log, adds one to the failed counter and stores the counters
  in the job; and the loop goes on with the remaining ids from there.
\<close>

theorem missing_record_fails:
  assumes "find (\<lambda>r. rec_id r = rid) (getDnsRecords s) = None"
      and "map_of (migrationRecordStatuses s) (statusKey jid rid) = Some v"
  shows "\<exists>t. processRecord e jid oldv newv rid s c f = (t, c, Suc f) \<and> t \<noteq> [] \<and>
           (\<exists>v'. map_of (migrationRecordStatuses (last t)) (statusKey jid rid) = Some v' \<and>
                 rs_status v' = ''failed'' \<and> errorMessage v' = Some ''Record not found'') \<and>
           counters jid (last t) = map_option (\<lambda>(a, b, n). (c, Suc f, n)) (counters jid s) \<and>
           (\<exists>entry. activityLog (last t) = take 100 (entry # activityLog s) \<and>
                 log_type entry = ''error'' \<and>
                 log_message entry = ''Failed to update DNS record: Record not found'') \<and>
           cfCalls (last t) = cfCalls s \<and> getDnsRecords (last t) = getDnsRecords s \<and>
           processLoop e jid oldv newv (rid # rest) s c f =
             (t @ fst (processLoop e jid oldv newv rest (last t) c (Suc f)),
              snd (processLoop e jid oldv newv rest (last t) c (Suc f)))"
proof -
  let ?s1 = "setRecordStatus e jid rid ''processing'' None s"
  let ?t = "?s1 # recordFailed e jid rid (Thrown (Some ''Record not found'')) c f ?s1"
  have pr: "processRecord e jid oldv newv rid s c f = (?t, c, Suc f)"
    using assms(1)
    by (cases rule: processRecord_cases [of e jid rid s oldv newv c f]) auto
  let ?sa = "setRecordStatus e jid rid ''failed'' (Some ''Record not found'') ?s1"
  let ?sb = "logActivity e ''error'' ''Failed to update DNS record: Record not found'' None ?sa"
  let ?sc = "updateMigrationJobProgress jid c (Suc f) ?sb"
  have l: "last ?t = ?sc" by (simp add: recordFailed_def)
  have st: "\<exists>v'. map_of (migrationRecordStatuses ?sc) (statusKey jid rid) = Some v' \<and>
                 rs_status v' = ''failed'' \<and> errorMessage v' = Some ''Record not found''"
    using assms(2) by (simp add: statuses_setRecordStatus orNull_def)
  have cn: "counters jid ?sc = map_option (\<lambda>(a, b, n). (c, Suc f, n)) (counters jid s)"
  proof -
    have "(c = Suc c \<and> Suc f = f \<or> c = c \<and> Suc f = Suc f) \<and>
          counters jid (last ?t) = map_option (\<lambda>(a, b, n). (c, Suc f, n)) (counters jid s)"
      using counters_processRecord
              [where e = e and jid = jid and oldv = oldv and newv = newv and rid = rid
                 and x = s and c = c and f = f]
      unfolding pr prod.case .
    then show ?thesis unfolding l by (rule conjunct2)
  qed
  have lg: "\<exists>entry. activityLog ?sc = take 100 (entry # activityLog s) \<and>
                 log_type entry = ''error'' \<and>
                 log_message entry = ''Failed to update DNS record: Record not found''"
    by (simp add: activityLog_logActivity logEntryOf_def)
  have rest: "cfCalls ?sc = cfCalls s" "getDnsRecords ?sc = getDnsRecords s"
    by simp_all
  have loop: "processLoop e jid oldv newv (rid # rest) s c f =
             (?t @ fst (processLoop e jid oldv newv rest ?sc c (Suc f)),
              snd (processLoop e jid oldv newv rest ?sc c (Suc f)))"
    using processLoop_Cons [OF pr, of rest] unfolding l .
  show ?thesis
    using pr st cn lg rest loop unfolding l [symmetric] by blast
qed

theorem missing_record_fails_witness:
  "find (\<lambda>r. rec_id r = ''r9'') recs0 = None \<and>
   (\<exists>t. processRecord env0 ''job0'' ''1.1.1.1'' ''2.2.2.2'' ''r9''
          (s0\<lparr>migrationRecordStatuses :=
                [(''job0-r9'', \<lparr>rs_id = ''job0-r9'', jobId = ''job0'', recordId = ''r9'',
                                rs_status = ''pending'', errorMessage = None,
                                updatedAt = 1001\<rparr>)]\<rparr>) 0 0 = (t, 0, 1) \<and>
        (\<exists>v'. map_of (migrationRecordStatuses (last t)) ''job0-r9'' = Some v' \<and>
              rs_status v' = ''failed'' \<and> errorMessage v' = Some ''Record not found''))"
proof -
  let ?s = "s0\<lparr>migrationRecordStatuses :=
                [(''job0-r9'', \<lparr>rs_id = ''job0-r9'', jobId = ''job0'', recordId = ''r9'',
                                rs_status = ''pending'', errorMessage = None,
                                updatedAt = 1001\<rparr>)]\<rparr>"
  have n: "find (\<lambda>r. rec_id r = ''r9'') recs0 = None" by code_simp
  have g: "getDnsRecords ?s = recs0"
    using getDnsRecords_s0 by (simp add: getDnsRecords_def)
  have f: "find (\<lambda>r. rec_id r = ''r9'') (getDnsRecords ?s) = None"
    unfolding g by (rule n)
  have m: "map_of (migrationRecordStatuses ?s) (statusKey ''job0'' ''r9'') =
             Some \<lparr>rs_id = ''job0-r9'', jobId = ''job0'', recordId = ''r9'',
                   rs_status = ''pending'', errorMessage = None, updatedAt = 1001\<rparr>"
    by (simp add: statusKey_def)
  have k: "statusKey ''job0'' ''r9'' = ''job0-r9''" by (simp add: statusKey_def)
  show ?thesis
    using missing_record_fails
            [where e = env0 and oldv = "''1.1.1.1''" and newv = "''2.2.2.2''" and c = 0
               and f = 0 and rest = "[]", OF f m] n
    unfolding k by auto
qed

section \<open>Failure isolation: the outcome of each record\<close>

lemma statusMsgOf_setRecordStatus:
  "statusMsgOf jid rid' (setRecordStatus e jid rid st m s) =
     (if rid' = rid then map_option (\<lambda>_. (st, orNull m)) (statusMsgOf jid rid s)
      else statusMsgOf jid rid' s)"
  by (simp add: statusMsgOf_def statuses_setRecordStatus option.map_comp comp_def)

lemma statusMsgOf_unchanged [simp]:
  "statusMsgOf jid rid (logActivity e ty msg det s) = statusMsgOf jid rid s"
  "statusMsgOf jid rid (setJobStatus e jid' st s) = statusMsgOf jid rid s"
  "statusMsgOf jid rid (updateMigrationJobProgress jid' c f s) = statusMsgOf jid rid s"
  "statusMsgOf jid rid (snd (cfUpdateDnsRecord e req s)) = statusMsgOf jid rid s"
  "statusMsgOf jid rid (saveDnsRecords rs s) = statusMsgOf jid rid s"
  by (simp_all add: statusMsgOf_def)

lemma errorText_nonempty: "errorText err \<noteq> []"
  by (cases err rule: errorText.cases) auto

lemma orNull_errorText: "orNull (Some (errorText err)) = Some (errorText err)"
  by (simp add: orNull_def errorText_nonempty)

text \<open>One iteration against the outcome prescribed for its record.\<close>

lemma outcome_processRecord:
  assumes pr: "processRecord e jid oldv newv rid s c f = (t, c', f')"
  shows "(c', f') = (if outcomeOf e newv (getDnsRecords s) (tick s) rid = None
                     then (Suc c, f) else (c, Suc f))"
    and "tick (last t) =
           tick s + (if find (\<lambda>r. rec_id r = rid) (getDnsRecords s) = None then 3 else 4)"
    and "statusMsgOf jid rid' (last t) =
           (if rid' = rid
            then map_option
                   (\<lambda>_. outcomeStatus (outcomeOf e newv (getDnsRecords s) (tick s) rid))
                   (statusMsgOf jid rid s)
            else statusMsgOf jid rid' s)"
proof -
  have "(c', f') = (if outcomeOf e newv (getDnsRecords s) (tick s) rid = None
                     then (Suc c, f) else (c, Suc f)) \<and>
        tick (last t) =
           tick s + (if find (\<lambda>r. rec_id r = rid) (getDnsRecords s) = None then 3 else 4) \<and>
        statusMsgOf jid rid' (last t) =
           (if rid' = rid
            then map_option
                   (\<lambda>_. outcomeStatus (outcomeOf e newv (getDnsRecords s) (tick s) rid))
                   (statusMsgOf jid rid s)
            else statusMsgOf jid rid' s)"
  proof (cases rule: processRecord_cases [of e jid rid s oldv newv c f])
    case (missing s1)
    have o: "outcomeOf e newv (getDnsRecords s) (tick s) rid =
               Some (Thrown (Some ''Record not found''))"
      using missing(2) by (simp add: outcomeOf_def)
    have l: "last t = updateMigrationJobProgress jid c (Suc f)
               (logActivity e ''error'' ''Failed to update DNS record: Record not found'' None
                 (setRecordStatus e jid rid ''failed'' (Some ''Record not found'') s1))"
      using pr missing(3) by (auto simp: recordFailed_def)
    show ?thesis
      using pr missing(2,3)
      by (simp add: o l missing(1) statusMsgOf_setRecordStatus outcomeStatus_def orNull_def
               option.map_comp comp_def)
  next
    case (rejected s1 s2 r err)
    have o: "outcomeOf e newv (getDnsRecords s) (tick s) rid = Some err"
      using rejected(3,4) by (simp add: outcomeOf_def)
    have l: "last t = updateMigrationJobProgress jid c (Suc f)
               (logActivity e ''error'' (''Failed to update DNS record: '' @ errorText err) None
                 (setRecordStatus e jid rid ''failed'' (Some (errorText err)) s2))"
      using pr rejected(5) by (auto simp: recordFailed_def)
    show ?thesis
      using pr rejected(3,5)
      by (simp add: o l rejected(1,2) statusMsgOf_setRecordStatus outcomeStatus_def
               orNull_errorText option.map_comp comp_def)
  next
    case (updated s1 s2 r)
    have o: "outcomeOf e newv (getDnsRecords s) (tick s) rid = None"
      using updated(3,4) by (simp add: outcomeOf_def)
    have l: "last t = updateMigrationJobProgress jid (Suc c) f
               (logActivity e ''success'' (''Updated DNS record for '' @ rec_name r)
                  (Some (oldv @ arrow @ newv))
                 (setRecordStatus e jid rid ''completed'' None
                   (saveDnsRecords (setContent rid newv (getDnsRecords s)) s2)))"
      using pr updated(5) by auto
    show ?thesis
      using pr updated(3,5)
      by (simp add: o l updated(1,2) statusMsgOf_setRecordStatus outcomeStatus_def orNull_def
               option.map_comp comp_def)
  qed
  then show "(c', f') = (if outcomeOf e newv (getDnsRecords s) (tick s) rid = None
                     then (Suc c, f) else (c, Suc f))"
    and "tick (last t) =
           tick s + (if find (\<lambda>r. rec_id r = rid) (getDnsRecords s) = None then 3 else 4)"
    and "statusMsgOf jid rid' (last t) =
           (if rid' = rid
            then map_option
                   (\<lambda>_. outcomeStatus (outcomeOf e newv (getDnsRecords s) (tick s) rid))
                   (statusMsgOf jid rid s)
            else statusMsgOf jid rid' s)"
    by blast+
qed

lemma outcomeOf_cong:
  assumes "map_option (patchOf newv) (find (\<lambda>r. rec_id r = rid) recs') =
           map_option (patchOf newv) (find (\<lambda>r. rec_id r = rid) recs)"
  shows "outcomeOf e newv recs' n rid = outcomeOf e newv recs n rid"
  using assms by (auto simp: outcomeOf_def split: option.splits)

lemma outcomes_cong:
  assumes "\<And>rid. map_option (patchOf newv) (find (\<lambda>r. rec_id r = rid) recs') =
                   map_option (patchOf newv) (find (\<lambda>r. rec_id r = rid) recs)"
  shows "outcomes e newv recs' n rids = outcomes e newv recs n rids"
proof (induction rids arbitrary: n)
  case Nil
  show ?case by simp
next
  case (Cons rid rest)
  have "(find (\<lambda>r. rec_id r = rid) recs' = None) = (find (\<lambda>r. rec_id r = rid) recs = None)"
    using assms [of rid] by (metis option.map_disc_iff)
  then show ?case
    using Cons.IH outcomeOf_cong [OF assms, where rid = rid and e = e and n = n] by simp
qed

text \<open>The loop against the prescribed outcomes.\<close>

lemma outcomes_processLoop:
  assumes "processLoop e jid oldv newv rids s c f = (t, c', f')" and "wfDns s"
  shows "c' = c + length (filter (\<lambda>(r, out). out = None)
                    (outcomes e newv (getDnsRecords s) (tick s) rids)) \<and>
         f' = f + length (filter (\<lambda>(r, out). out \<noteq> None)
                    (outcomes e newv (getDnsRecords s) (tick s) rids)) \<and>
         (\<forall>rid. statusMsgOf jid rid (last (s # t)) =
            (case map_of (rev (outcomes e newv (getDnsRecords s) (tick s) rids)) rid of
               None \<Rightarrow> statusMsgOf jid rid s
             | Some out \<Rightarrow> map_option (\<lambda>_. outcomeStatus out) (statusMsgOf jid rid s)))"
  using assms
proof (induction rids arbitrary: s c f t c' f')
  case Nil
  then show ?case by simp
next
  case (Cons r rest)
  obtain t1 c1 f1 where pr: "processRecord e jid oldv newv r s c f = (t1, c1, f1)"
    by (cases "processRecord e jid oldv newv r s c f") auto
  obtain t2 where pl: "processLoop e jid oldv newv rest (last t1) c1 f1 = (t2, c', f')"
    and t: "t = t1 @ t2"
    using Cons.prems(1) pr by (auto split: prod.splits)
  have ne: "t1 \<noteq> []" by (rule jobs_processRecord(1) [OF pr])
  have last_eq: "last (s # t) = last (last t1 # t2)"
    using ne by (simp add: t)
  note dns = dns_processRecord [OF pr Cons.prems(2)]
  note out = outcome_processRecord [OF pr]
  let ?recs = "getDnsRecords s"
  let ?n = "tick s + (if find (\<lambda>r'. rec_id r' = r) ?recs = None then 3 else 4)"
  let ?o = "outcomeOf e newv ?recs (tick s) r"
  let ?os = "outcomes e newv ?recs ?n rest"
  have same: "outcomes e newv (getDnsRecords (last t1)) (tick (last t1)) rest = ?os"
    unfolding out(2)
    by (rule outcomes_cong) (simp add: dns(1) find_setContent)
  note ih = Cons.IH [OF pl dns(2), unfolded same]
  have os: "outcomes e newv ?recs (tick s) (r # rest) = (r, ?o) # ?os" by simp
  have cf: "c1 = (if ?o = None then Suc c else c)" "f1 = (if ?o = None then f else Suc f)"
    using out(1) by (auto split: if_splits)
  have st: "statusMsgOf jid rid (last (last t1 # t2)) =
            (case map_of (rev ((r, ?o) # ?os)) rid of
               None \<Rightarrow> statusMsgOf jid rid s
             | Some out \<Rightarrow> map_option (\<lambda>_. outcomeStatus out) (statusMsgOf jid rid s))" for rid
  proof (cases "map_of (rev ?os) rid")
    case None
    then show ?thesis
      using ih out(3) [of rid]
      by (simp add: map_add_def option.map_comp comp_def)
  next
    case (Some a)
    then show ?thesis
      using ih out(3) [of rid]
      by (simp add: map_add_def option.map_comp comp_def)
  qed
  show ?case
    unfolding os last_eq using ih cf st by simp
qed

lemma fst_outcomes: "map fst (outcomes e newv recs n rids) = rids"
  by (induction rids arbitrary: n) auto

lemma migrationStart_tick:
  assumes "migrationStart e body s = (r, s', Some (jid, rids, oldv, newv))"
  shows "tick s' = tick s + 3"
  using assms
  by (auto simp: migrationStart_def createMigrationJob_def Let_def
        saveMigrationRecordStatus_def split: if_splits)

text \<open>A whole run against the prescribed outcomes, and the moment the job is completed.\<close>

lemma outcomes_processMigration:
  assumes cfg: "getApiConfiguration s = Some cfgv" and wf: "wfDns s"
      and job: "getMigrationJob jid s = Some j"
      and zero: "completedRecords j = 0" "failedRecords j = 0"
  shows "(\<exists>j'. getMigrationJob jid (last (processMigration e jid rids oldv newv s)) = Some j' \<and>
            completedRecords j' =
              length (filter (\<lambda>(r, out). out = None)
                        (outcomes e newv (getDnsRecords s) (Suc (tick s)) rids)) \<and>
            failedRecords j' =
              length (filter (\<lambda>(r, out). out \<noteq> None)
                        (outcomes e newv (getDnsRecords s) (Suc (tick s)) rids))) \<and>
         (\<forall>rid. statusMsgOf jid rid (last (processMigration e jid rids oldv newv s)) =
            (case map_of (rev (outcomes e newv (getDnsRecords s) (Suc (tick s)) rids)) rid of
               None \<Rightarrow> statusMsgOf jid rid s
             | Some out \<Rightarrow> map_option (\<lambda>_. outcomeStatus out) (statusMsgOf jid rid s)))"
proof -
  let ?s1 = "setJobStatus e jid ''running'' s"
  let ?j1 = "j\<lparr>job_status := ''running''\<rparr>"
  obtain t c f where pl: "processLoop e jid oldv newv rids ?s1 0 0 = (t, c, f)"
    by (cases "processLoop e jid oldv newv rids ?s1 0 0") auto
  have wf1: "wfDns ?s1" using wf by (simp add: wfDns_def)
  have j1: "getMigrationJob jid ?s1 = Some ?j1"
    using job by (simp add: getMigrationJob_status)
  have loop: "c + f = 0 + 0 + length rids \<and> 0 \<le> c \<and> 0 \<le> f \<and>
         (\<exists>j'. getMigrationJob jid (last (?s1 # t)) = Some j' \<and>
               totalRecords j' = totalRecords ?j1 \<and> job_status j' = job_status ?j1 \<and>
               completedRecords j' = c \<and> failedRecords j' = f) \<and>
         (\<forall>x \<in> set t. \<exists>j'. getMigrationJob jid x = Some j' \<and>
               totalRecords j' = totalRecords ?j1 \<and> job_status j' = job_status ?j1 \<and>
               completedRecords j' + failedRecords j' \<le> c + f) \<and>
         successively (countersMonotone jid) (?s1 # t)"
    by (rule job_processLoop [OF pl j1]) (simp_all add: zero)
  then obtain jl where jl: "getMigrationJob jid (last (?s1 # t)) = Some jl"
      "completedRecords jl = c" "failedRecords jl = f"
    by auto
  let ?sl = "last (?s1 # t)"
  let ?s2 = "setJobStatus e jid ''completed'' ?sl"
  let ?s3 = "logActivity e ''success''
               (''Migration completed: '' @ showNat c @ '' success, '' @ showNat f @ '' failed'')
               None ?s2"
  have tr: "processMigration e jid rids oldv newv s = (?s1 # t) @ [?s2, ?s3]"
    using cfg pl by (simp add: processMigration_def Let_def)
  have fin: "last (processMigration e jid rids oldv newv s) = ?s3"
    unfolding tr by simp
  let ?j2 = "jl\<lparr>job_status := ''completed'', completedAt := Some (newDate e (tick ?sl))\<rparr>"
  have j2: "getMigrationJob jid ?s2 = Some ?j2"
    using jl(1) by (simp add: getMigrationJob_status)
  have j3: "getMigrationJob jid ?s3 = Some ?j2"
    using j2 by (simp add: getMigrationJob_def)
  have g1: "getDnsRecords ?s1 = getDnsRecords s" "tick ?s1 = Suc (tick s)" by simp_all
  note ol = outcomes_processLoop [OF pl wf1, unfolded g1]
  have st: "statusMsgOf jid rid ?s3 = statusMsgOf jid rid ?sl" for rid by simp
  have st1: "statusMsgOf jid rid ?s1 = statusMsgOf jid rid s" for rid by simp
  note ol' = ol [unfolded st1]
  have A: "\<exists>j'. getMigrationJob jid ?s3 = Some j' \<and>
            completedRecords j' =
              length (filter (\<lambda>(r, out). out = None)
                        (outcomes e newv (getDnsRecords s) (Suc (tick s)) rids)) \<and>
            failedRecords j' =
              length (filter (\<lambda>(r, out). out \<noteq> None)
                        (outcomes e newv (getDnsRecords s) (Suc (tick s)) rids))"
    using j3 jl(2,3) ol' by simp
  have B: "\<forall>rid. statusMsgOf jid rid ?s3 =
            (case map_of (rev (outcomes e newv (getDnsRecords s) (Suc (tick s)) rids)) rid of
               None \<Rightarrow> statusMsgOf jid rid s
             | Some out \<Rightarrow> map_option (\<lambda>_. outcomeStatus out) (statusMsgOf jid rid s))"
    unfolding st using ol' by blast
  show ?thesis
    unfolding fin using A B by (rule conjI)
qed

lemma completion_processMigration:
  assumes cfg: "getApiConfiguration s = Some cfgv"
      and job: "getMigrationJob jid s = Some j"
      and zero: "completedRecords j = 0" "failedRecords j = 0"
  shows "\<exists>pre s2 s3. processMigration e jid rids oldv newv s = pre @ [s2, s3] \<and> pre \<noteq> [] \<and>
           (\<forall>x \<in> set pre. \<exists>j'. getMigrationJob jid x = Some j' \<and> job_status j' = ''running'') \<and>
           (\<exists>j'. getMigrationJob jid (last pre) = Some j' \<and>
                 completedRecords j' + failedRecords j' = length rids) \<and>
           (\<exists>j'. getMigrationJob jid s2 = Some j' \<and> job_status j' = ''completed'')"
proof -
  let ?s1 = "setJobStatus e jid ''running'' s"
  let ?j1 = "j\<lparr>job_status := ''running''\<rparr>"
  obtain t c f where pl: "processLoop e jid oldv newv rids ?s1 0 0 = (t, c, f)"
    by (cases "processLoop e jid oldv newv rids ?s1 0 0") auto
  have j1: "getMigrationJob jid ?s1 = Some ?j1"
    using job by (simp add: getMigrationJob_status)
  have loop: "c + f = 0 + 0 + length rids \<and> 0 \<le> c \<and> 0 \<le> f \<and>
         (\<exists>j'. getMigrationJob jid (last (?s1 # t)) = Some j' \<and>
               totalRecords j' = totalRecords ?j1 \<and> job_status j' = job_status ?j1 \<and>
               completedRecords j' = c \<and> failedRecords j' = f) \<and>
         (\<forall>x \<in> set t. \<exists>j'. getMigrationJob jid x = Some j' \<and>
               totalRecords j' = totalRecords ?j1 \<and> job_status j' = job_status ?j1 \<and>
               completedRecords j' + failedRecords j' \<le> c + f) \<and>
         successively (countersMonotone jid) (?s1 # t)"
    by (rule job_processLoop [OF pl j1]) (simp_all add: zero)
  then obtain jl where jl: "getMigrationJob jid (last (?s1 # t)) = Some jl"
      "completedRecords jl = c" "failedRecords jl = f"
    by auto
  let ?sl = "last (?s1 # t)"
  let ?s2 = "setJobStatus e jid ''completed'' ?sl"
  let ?s3 = "logActivity e ''success''
               (''Migration completed: '' @ showNat c @ '' success, '' @ showNat f @ '' failed'')
               None ?s2"
  have tr: "processMigration e jid rids oldv newv s = (?s1 # t) @ [?s2, ?s3]"
    using cfg pl by (simp add: processMigration_def Let_def)
  have j2: "\<exists>j'. getMigrationJob jid ?s2 = Some j' \<and> job_status j' = ''completed''"
    using jl(1) by (simp add: getMigrationJob_status)
  have run: "\<forall>x \<in> set (?s1 # t). \<exists>j'. getMigrationJob jid x = Some j' \<and> job_status j' = ''running''"
    using loop j1 by fastforce
  have sum: "\<exists>j'. getMigrationJob jid (last (?s1 # t)) = Some j' \<and>
                 completedRecords j' + failedRecords j' = length rids"
    using jl loop by simp
  show ?thesis
    using tr run sum j2 by blast
qed

text \<open>
  Claim C1. For a job that the start handler has created, when a configuration is
  stored, so that the loop starts:
  \<^item> the job ends with status \<open>completed\<close> (whatever the number of failures), its two
    counters add up to the number of records, every record of the request ends as
    \<open>completed\<close> or \<open>failed\<close>, and the job is \<open>failed\<close> at no point of the run;
  \<^item> the status \<open>completed\<close> is set by the last but one call of the run, when the
    counters already add up to the number of records, and in no state before it;
  \<^item> with one snapshot per record id in the cached listing, the update calls made are
    one for each requested id that has a snapshot, in the order of the request, so an
    id is looked up and updated whatever happened to the ids before it; the completed
    counter ends as the number of ids whose update succeeded and the failed counter as
    the number of ids that failed; and each record ends with the status and the error
    message of its own (last) outcome: \<open>completed\<close> with no message when its update
    succeeded, \<open>failed\<close> with the text of its error otherwise.

  The outcomes are those prescribed from the fifth interaction with the world on: the
  handler makes three (the job, the timestamp of the statuses, the log entry) and the
  \<open>running\<close> status is the fourth.

  When no configuration is stored the job ends with status \<open>failed\<close>, every record
  status is still \<open>pending\<close>, both counters are zero and no update call has been made.
\<close>

theorem failure_isolation:
  assumes "startsJob body" and "body_recordIds body = Some rids"
      and "body_newIp body = Some newv"
      and "jid = randomUUID e (tick s)" and "final = last (migrationTrace e body s)"
      and "outs = outcomes e newv (getDnsRecords s) (tick s + 4) rids"
  shows "(getApiConfiguration s \<noteq> None \<longrightarrow>
            (\<exists>j. getMigrationJob jid final = Some j \<and> job_status j = ''completed'' \<and>
                  completedAt j \<noteq> None \<and> totalRecords j = length rids \<and>
                  completedRecords j + failedRecords j = length rids) \<and>
            (\<forall>rid \<in> set rids. statusOf jid rid final = Some ''completed'' \<or>
                                statusOf jid rid final = Some ''failed'') \<and>
            (\<forall>x \<in> set (migrationTrace e body s).
                \<exists>j. getMigrationJob jid x = Some j \<and> job_status j \<noteq> ''failed'') \<and>
            (\<exists>pre s2 s3. migrationTrace e body s = pre @ [s2, s3] \<and> pre \<noteq> [] \<and>
                (\<forall>x \<in> set pre. \<exists>j. getMigrationJob jid x = Some j \<and>
                                     job_status j \<noteq> ''completed'') \<and>
                (\<exists>j. getMigrationJob jid (last pre) = Some j \<and>
                      completedRecords j + failedRecords j = length rids) \<and>
                (\<exists>j. getMigrationJob jid s2 = Some j \<and> job_status j = ''completed'')) \<and>
            (wfDns s \<longrightarrow>
               cfCalls final =
                 cfCalls s @
                 List.map_filter
                   (\<lambda>rid. map_option (patchOf newv)
                             (find (\<lambda>r. rec_id r = rid) (getDnsRecords s))) rids \<and>
               (\<exists>j. getMigrationJob jid final = Some j \<and>
                     completedRecords j = length (filter (\<lambda>(r, out). out = None) outs) \<and>
                     failedRecords j = length (filter (\<lambda>(r, out). out \<noteq> None) outs)) \<and>
               (\<forall>rid \<in> set rids.
                   statusMsgOf jid rid final =
                     map_option outcomeStatus (map_of (rev outs) rid)))) \<and>
         (getApiConfiguration s = None \<longrightarrow>
            (\<exists>j. getMigrationJob jid final = Some j \<and> job_status j = ''failed'' \<and>
                  completedRecords j = 0 \<and> failedRecords j = 0) \<and>
            (\<forall>rid \<in> set rids. statusOf jid rid final = Some ''pending'') \<and>
            cfCalls final = cfCalls s)"
proof -
  obtain s' oldv nv where
    st0: "migrationStart e body s = (Json200 jid, s', Some (jid, rids, oldv, nv))"
    and tr0: "migrationTrace e body s = s' # processMigration e jid rids oldv nv s'"
    using startsJob_accepted [OF assms(1), of e s] assms(2,4) by auto
  have nv: "nv = newv" using migrationStart_accepted(6) [OF st0] assms(3) by simp
  note st = st0 [unfolded nv] and tr = tr0 [unfolded nv]
  note acc = migrationStart_accepted [OF st]
  let ?j0 = "\<lparr>job_id = jid, oldIp = oldv, newIp = newv, totalRecords = length rids,
              completedRecords = 0, failedRecords = 0, job_status = ''pending'',
              createdAt = newDate e (tick s), completedAt = None\<rparr>"
  have j0: "getMigrationJob jid s' = Some ?j0" by (rule acc(7))
  have cfg: "getApiConfiguration s' = getApiConfiguration s"
    by (simp add: getApiConfiguration_def acc(8))
  have pend: "statusOf jid rid s' = Some ''pending''" if "rid \<in> set rids" for rid
    using that by (rule statusOf_started [OF st])
  have pendm: "statusMsgOf jid rid s' = Some (''pending'', None)" if "rid \<in> set rids" for rid
    using started_entry [OF st that] by (simp add: statusMsgOf_def)
  show ?thesis
  proof (intro conjI impI)
    assume "getApiConfiguration s \<noteq> None"
    then obtain cfgv where c: "getApiConfiguration s' = Some cfgv" using cfg by auto
    have fin: "final = last (processMigration e jid rids oldv newv s')"
    proof -
      have "processMigration e jid rids oldv newv s' \<noteq> []"
        using c by (simp add: processMigration_def Let_def split: prod.split)
      then show ?thesis by (simp add: assms(5) tr)
    qed
    note jp = job_processMigration [OF c j0, of e rids oldv newv]
    show "\<exists>j. getMigrationJob jid final = Some j \<and> job_status j = ''completed'' \<and>
                  completedAt j \<noteq> None \<and> totalRecords j = length rids \<and>
                  completedRecords j + failedRecords j = length rids"
      unfolding fin using jp by auto
    show "\<forall>rid \<in> set rids. statusOf jid rid final = Some ''completed'' \<or>
                                statusOf jid rid final = Some ''failed''"
      unfolding fin using statusOf_processMigration [OF c] pend by auto
    show "\<forall>x \<in> set (migrationTrace e body s).
                \<exists>j. getMigrationJob jid x = Some j \<and> job_status j \<noteq> ''failed''"
      unfolding tr using jp j0 by fastforce
    show "\<exists>pre s2 s3. migrationTrace e body s = pre @ [s2, s3] \<and> pre \<noteq> [] \<and>
                (\<forall>x \<in> set pre. \<exists>j. getMigrationJob jid x = Some j \<and>
                                     job_status j \<noteq> ''completed'') \<and>
                (\<exists>j. getMigrationJob jid (last pre) = Some j \<and>
                      completedRecords j + failedRecords j = length rids) \<and>
                (\<exists>j. getMigrationJob jid s2 = Some j \<and> job_status j = ''completed'')"
    proof -
      from completion_processMigration [OF c j0, of e rids oldv newv]
      obtain pre s2 s3 where p: "processMigration e jid rids oldv newv s' = pre @ [s2, s3]"
          "pre \<noteq> []"
          "\<forall>x \<in> set pre. \<exists>j'. getMigrationJob jid x = Some j' \<and> job_status j' = ''running''"
          "\<exists>j'. getMigrationJob jid (last pre) = Some j' \<and>
                 completedRecords j' + failedRecords j' = length rids"
          "\<exists>j'. getMigrationJob jid s2 = Some j' \<and> job_status j' = ''completed''"
        by auto
      have 1: "migrationTrace e body s = (s' # pre) @ [s2, s3]" by (simp add: tr p(1))
      have 2: "\<forall>x \<in> set (s' # pre). \<exists>j. getMigrationJob jid x = Some j \<and>
                                     job_status j \<noteq> ''completed''"
        using p(3) j0 by fastforce
      have 3: "\<exists>j. getMigrationJob jid (last (s' # pre)) = Some j \<and>
                      completedRecords j + failedRecords j = length rids"
        using p(2,4) by simp
      show ?thesis
        using 1 2 3 p(5) by blast
    qed
  next
    assume "getApiConfiguration s \<noteq> None" and wf: "wfDns s"
    then obtain cfgv where c: "getApiConfiguration s' = Some cfgv" using cfg by auto
    have fin: "final = last (processMigration e jid rids oldv newv s')"
    proof -
      have "processMigration e jid rids oldv newv s' \<noteq> []"
        using c by (simp add: processMigration_def Let_def split: prod.split)
      then show ?thesis by (simp add: assms(5) tr)
    qed
    have wf': "wfDns s'" using wf wfDns_unchanged [OF acc(9)] by simp
    have g: "getDnsRecords s' = getDnsRecords s" by (simp add: getDnsRecords_def acc(9))
    have tk: "Suc (tick s') = tick s + 4" using migrationStart_tick [OF st] by simp
    note om = outcomes_processMigration [OF c wf' j0, of e rids oldv newv, unfolded g tk,
                folded assms(6)]
    show "cfCalls final =
            cfCalls s @
            List.map_filter
              (\<lambda>rid. map_option (patchOf newv)
                        (find (\<lambda>r. rec_id r = rid) (getDnsRecords s))) rids"
      unfolding fin using calls_processMigration [OF c wf', of e jid rids oldv newv]
      by (simp add: g acc(10))
    show "\<exists>j. getMigrationJob jid final = Some j \<and>
                     completedRecords j = length (filter (\<lambda>(r, out). out = None) outs) \<and>
                     failedRecords j = length (filter (\<lambda>(r, out). out \<noteq> None) outs)"
      unfolding fin using om by simp
    show "\<forall>rid \<in> set rids.
                   statusMsgOf jid rid final =
                     map_option outcomeStatus (map_of (rev outs) rid)"
    proof
      fix rid assume r: "rid \<in> set rids"
      have "rid \<in> fst ` set (rev outs)"
        using r fst_outcomes [of e newv "getDnsRecords s" "tick s + 4" rids]
        by (simp add: assms(6) flip: set_map)
      then obtain out where o: "map_of (rev outs) rid = Some out"
        by (metis map_of_eq_None_iff not_Some_eq)
      show "statusMsgOf jid rid final = map_option outcomeStatus (map_of (rev outs) rid)"
        unfolding fin using om o pendm [OF r] by simp
    qed
  next
    assume n: "getApiConfiguration s = None"
    then have c: "getApiConfiguration s' = None" using cfg by simp
    from job_processMigration_none [OF c j0, of e rids oldv newv]
    obtain s1 s2 where run: "processMigration e jid rids oldv newv s' = [s1, s2]"
      and j2: "getMigrationJob jid s2 =
                 Some (?j0\<lparr>job_status := ''failed'', completedAt := Some (newDate e (tick s'))\<rparr>)"
      and same: "migrationRecordStatuses s2 = migrationRecordStatuses s'" "cfCalls s2 = cfCalls s'"
      by auto
    have fin: "final = s2" by (simp add: assms(5) tr run)
    show "\<exists>j. getMigrationJob jid final = Some j \<and> job_status j = ''failed'' \<and>
                  completedRecords j = 0 \<and> failedRecords j = 0"
      unfolding fin using j2 by simp
    show "\<forall>rid \<in> set rids. statusOf jid rid final = Some ''pending''"
      unfolding fin using pend same(1) by (simp add: statusOf_def)
    show "cfCalls final = cfCalls s"
      unfolding fin using same(2) acc(10) by simp
  qed
qed

theorem failure_isolation_witness:
  "startsJob (body0\<lparr>body_recordIds := Some [''r1'', ''r2'', ''r3'']\<rparr>) \<and>
   getApiConfiguration s0 \<noteq> None \<and> wfDns s0 \<and>
   outcomes env0 ''2.2.2.2'' (getDnsRecords s0) (tick s0 + 4) [''r1'', ''r2'', ''r3''] =
     [(''r1'', None),
      (''r2'', Some (Thrown (Some ''Cloudflare API error: 500 Internal Server Error''))),
      (''r3'', None)] \<and>
   (\<exists>j. getMigrationJob ''job0''
          (last (migrationTrace env0 (body0\<lparr>body_recordIds := Some [''r1'', ''r2'', ''r3'']\<rparr>) s0)) =
          Some j \<and>
        job_status j = ''completed'' \<and> completedRecords j = 2 \<and> failedRecords j = 1) \<and>
   statusMsgOf ''job0'' ''r1''
     (last (migrationTrace env0 (body0\<lparr>body_recordIds := Some [''r1'', ''r2'', ''r3'']\<rparr>) s0)) =
     Some (''completed'', None) \<and>
   statusMsgOf ''job0'' ''r2''
     (last (migrationTrace env0 (body0\<lparr>body_recordIds := Some [''r1'', ''r2'', ''r3'']\<rparr>) s0)) =
     Some (''failed'', Some ''Cloudflare API error: 500 Internal Server Error'') \<and>
   statusMsgOf ''job0'' ''r3''
     (last (migrationTrace env0 (body0\<lparr>body_recordIds := Some [''r1'', ''r2'', ''r3'']\<rparr>) s0)) =
     Some (''completed'', None) \<and>
   map patch_recordId
     (cfCalls (last (migrationTrace env0
        (body0\<lparr>body_recordIds := Some [''r1'', ''r2'', ''r3'']\<rparr>) s0))) =
     [''r1'', ''r2'', ''r3''] \<and>
   getApiConfiguration newMemStorage = None \<and>
   (\<exists>j. getMigrationJob (randomUUID env0 (tick newMemStorage))
          (last (migrationTrace env0 body0 newMemStorage)) = Some j \<and>
        job_status j = ''failed'')"
proof -
  let ?body = "body0\<lparr>body_recordIds := Some [''r1'', ''r2'', ''r3'']\<rparr>"
  let ?final = "last (migrationTrace env0 ?body s0)"
  let ?outs = "[(''r1'', None),
      (''r2'', Some (Thrown (Some ''Cloudflare API error: 500 Internal Server Error''))),
      (''r3'', None)]"
  have b: "startsJob ?body" by (simp add: startsJob_def body0_def)
  have r: "body_recordIds ?body = Some [''r1'', ''r2'', ''r3'']"
    and n: "body_newIp ?body = Some ''2.2.2.2''"
    by (simp_all add: body0_def)
  have t0: "tick s0 = 0" by (simp add: s0_def newMemStorage_def)
  have jid: "''job0'' = randomUUID env0 (tick s0)"
    unfolding t0 by code_simp
  have c0: "cfCalls s0 = []" by (simp add: s0_def newMemStorage_def)
  have o: "outcomes env0 ''2.2.2.2'' recs0 4 [''r1'', ''r2'', ''r3''] = ?outs"
    by code_simp
  then have o': "?outs = outcomes env0 ''2.2.2.2'' (getDnsRecords s0) (tick s0 + 4)
                   [''r1'', ''r2'', ''r3'']"
    by (simp add: getDnsRecords_s0 t0)
  have ev: "map patch_recordId
              (List.map_filter
                (\<lambda>rid. map_option (patchOf ''2.2.2.2'') (find (\<lambda>r. rec_id r = rid) recs0))
                [''r1'', ''r2'', ''r3'']) = [''r1'', ''r2'', ''r3'']"
    by code_simp
  have b0: "body_recordIds body0 = Some [''r1'', ''r2'', ''r9'', ''r3'']"
    and n0: "body_newIp body0 = Some ''2.2.2.2''"
    by (simp_all add: body0_def)
  have none: "getApiConfiguration newMemStorage = None"
    by (simp add: getApiConfiguration_def newMemStorage_def)
  note with_cfg = failure_isolation [where e = env0 and s = s0, OF b r n jid refl o']
  note without = failure_isolation [where e = env0 and s = newMemStorage,
                   OF startsJob_body0 b0 n0 refl refl refl]
  have job: "\<exists>j. getMigrationJob ''job0'' ?final = Some j \<and>
        job_status j = ''completed'' \<and> completedRecords j = 2 \<and> failedRecords j = 1"
    using with_cfg getApiConfiguration_s0 wfDns_s0 by auto
  have st: "statusMsgOf ''job0'' ''r1'' ?final = Some (''completed'', None)"
      "statusMsgOf ''job0'' ''r2'' ?final =
         Some (''failed'', Some ''Cloudflare API error: 500 Internal Server Error'')"
      "statusMsgOf ''job0'' ''r3'' ?final = Some (''completed'', None)"
    using with_cfg getApiConfiguration_s0 wfDns_s0 by (simp_all add: outcomeStatus_def)
  have calls: "map patch_recordId (cfCalls ?final) = [''r1'', ''r2'', ''r3'']"
    using with_cfg getApiConfiguration_s0 wfDns_s0 ev by (simp add: c0 getDnsRecords_s0)
  have failed: "\<exists>j. getMigrationJob (randomUUID env0 (tick newMemStorage))
          (last (migrationTrace env0 body0 newMemStorage)) = Some j \<and> job_status j = ''failed''"
    using without none by auto
  show ?thesis
    using b getApiConfiguration_s0 wfDns_s0 o' [symmetric] job st calls none failed
    by (intro conjI)
qed

section \<open>The configuration endpoint\<close>

text \<open>
  Claim C10. The answer of \<^verbatim>\<open>GET /api/config\<close> for a stored configuration is the
  object with the fields \<open>id\<close>, \<open>email\<close>, \<open>isConnected\<close>, \<open>lastConnected\<close> and the
  boolean \<open>hasApiKey\<close>: it has no \<open>apiKey\<close> field, and replacing a non-empty API key by
  another non-empty one leaves the answer unchanged.
\<close>

theorem config_read_hides_api_key:
  assumes "getApiConfiguration s = Some c"
  shows "getConfig s =
           Json200 [(''id'', JString (cfg_id c)), (''email'', JString (email c)),
                    (''isConnected'', JBool (isConnected c)),
                    (''lastConnected'',
                       (case lastConnected c of None \<Rightarrow> JNull | Some d \<Rightarrow> JDate d)),
                    (''hasApiKey'', JBool (apiKey c \<noteq> []))] \<and>
         (\<exists>obj. getConfig s = Json200 obj \<and> map_of obj ''apiKey'' = None) \<and>
         (apiKey c \<noteq> [] \<and> k \<noteq> [] \<longrightarrow>
            getConfig (s\<lparr>apiConfiguration := Some (c\<lparr>apiKey := k\<rparr>)\<rparr>) = getConfig s)"
  using assms by (simp add: getConfig_def getApiConfiguration_def configObject_def)

theorem config_read_hides_api_key_witness:
  "getConfig (newMemStorage\<lparr>apiConfiguration :=
      Some \<lparr>cfg_id = ''default'', email = ''a@b.c'', apiKey = ''secret-1'',
            isConnected = False, lastConnected = None\<rparr>\<rparr>) =
     Json200 [(''id'', JString ''default''), (''email'', JString ''a@b.c''),
              (''isConnected'', JBool False), (''lastConnected'', JNull),
              (''hasApiKey'', JBool True)] \<and>
   getConfig (newMemStorage\<lparr>apiConfiguration :=
      Some \<lparr>cfg_id = ''default'', email = ''a@b.c'', apiKey = ''secret-2'',
            isConnected = False, lastConnected = None\<rparr>\<rparr>) =
   getConfig (newMemStorage\<lparr>apiConfiguration :=
      Some \<lparr>cfg_id = ''default'', email = ''a@b.c'', apiKey = ''secret-1'',
            isConnected = False, lastConnected = None\<rparr>\<rparr>)"
  using config_read_hides_api_key
    [of "newMemStorage\<lparr>apiConfiguration :=
           Some \<lparr>cfg_id = ''default'', email = ''a@b.c'', apiKey = ''secret-1'',
                 isConnected = False, lastConnected = None\<rparr>\<rparr>"
        "\<lparr>cfg_id = ''default'', email = ''a@b.c'', apiKey = ''secret-1'',
          isConnected = False, lastConnected = None\<rparr>" "''secret-2''"]
  by (simp add: getApiConfiguration_def)

section \<open>Rounding to a double\<close>

lemma bitLength_bounds:
  "0 < n \<Longrightarrow> 2 ^ (bitLength n - 1) \<le> n \<and> n < 2 ^ bitLength n"
proof (induction n rule: bitLength.induct)
  case (1 n)
  show ?case
  proof (cases "n div 2 = 0")
    case True
    then have "n = 1" using "1.prems" by linarith
    then show ?thesis by (simp add: bitLength.simps)
  next
    case False
    then have ih: "2 ^ (bitLength (n div 2) - 1) \<le> n div 2 \<and> n div 2 < 2 ^ bitLength (n div 2)"
      using "1.IH" "1.prems" by simp
    have b: "bitLength n = Suc (bitLength (n div 2))"
      using "1.prems" by (subst bitLength.simps) simp
    have pos: "0 < bitLength (n div 2)"
      using False by (subst bitLength.simps) simp
    then obtain k where k: "bitLength (n div 2) = Suc k" by (cases "bitLength (n div 2)") auto
    have "2 * 2 ^ k \<le> n" using ih k by simp linarith
    moreover have "n < 2 * 2 ^ Suc k" using ih k by simp linarith
    ultimately show ?thesis by (simp add: b k)
  qed
qed

lemma roundTiesEven_near: "\<bar>of_int (roundTiesEven x) - x\<bar> \<le> 1 / 2"
proof -
  have "of_int \<lfloor>x\<rfloor> \<le> x" "x < of_int \<lfloor>x\<rfloor> + 1" by linarith+
  then show ?thesis
    unfolding roundTiesEven_def Let_def abs_if
    by (simp split: if_splits) linarith
qed

lemma binadeShift_range:
  assumes "0 < x"
  shows "2 ^ 52 \<le> x * pow2 (binadeShift x) \<and> x * pow2 (binadeShift x) < 2 ^ 53"
proof (cases "1 \<le> x")
  case True
  let ?n = "nat \<lfloor>x\<rfloor>"
  let ?b = "bitLength ?n"
  have n: "0 < ?n" using True by simp
  have nx: "of_nat ?n \<le> x" "x < of_nat ?n + 1"
    using True by (simp_all add: of_nat_nat) linarith+
  from bitLength_bounds [OF n] have bb: "2 ^ (?b - 1) \<le> ?n" "?n < 2 ^ ?b" by auto
  have bpos: "0 < ?b" using n by (subst bitLength.simps) simp
  have lo: "(2::rat) ^ (?b - 1) \<le> x"
  proof -
    have "(2::rat) ^ (?b - 1) = of_nat (2 ^ (?b - 1))" by simp
    also have "\<dots> \<le> of_nat ?n" using bb(1) by (subst of_nat_le_iff)
    finally show ?thesis using nx(1) by linarith
  qed
  have hi: "x < (2::rat) ^ ?b"
  proof -
    have "?n + 1 \<le> 2 ^ ?b" using bb(2) by linarith
    then have "of_nat (?n + 1) \<le> (of_nat (2 ^ ?b) :: rat)" by (subst of_nat_le_iff)
    then show ?thesis using nx(2) by simp
  qed
  show ?thesis
  proof (cases "?b \<le> 53")
    case le: True
    have k: "pow2 (binadeShift x) = 2 ^ (53 - ?b)"
      using True le by (simp add: binadeShift_def pow2_def nat_diff_distrib')
    have e1: "(2::rat) ^ 52 = 2 ^ (?b - 1) * 2 ^ (53 - ?b)"
      using le bpos by (simp add: power_add [symmetric])
    have e2: "(2::rat) ^ 53 = 2 ^ ?b * 2 ^ (53 - ?b)"
      using le by (simp add: power_add [symmetric])
    show ?thesis
      unfolding k e1 e2 using lo hi by (simp add: mult_right_mono)
  next
    case gt: False
    have k: "pow2 (binadeShift x) = 1 / 2 ^ (?b - 53)"
      using True gt by (simp add: binadeShift_def pow2_def nat_diff_distrib')
    have e1: "(2::rat) ^ (?b - 1) = 2 ^ 52 * 2 ^ (?b - 53)"
    proof -
      have "?b - 1 = 52 + (?b - 53)" using gt by linarith
      then show ?thesis by (metis power_add)
    qed
    have e2: "(2::rat) ^ ?b = 2 ^ 53 * 2 ^ (?b - 53)"
    proof -
      have "?b = 53 + (?b - 53)" using gt by linarith
      then show ?thesis by (metis power_add)
    qed
    show ?thesis
      unfolding k using lo hi unfolding e1 e2
      by (simp add: pos_le_divide_eq pos_divide_less_eq)
  qed
next
  case False
  let ?y = "1 / x"
  let ?m = "nat (\<lceil>?y\<rceil> - 1)"
  let ?j = "bitLength ?m"
  have y: "1 < ?y" using False assms by simp
  have m: "0 < ?m" using y by simp
  have c: "1 < \<lceil>?y\<rceil>" using y by (simp add: less_ceiling_iff)
  have nn: "0 \<le> \<lceil>?y\<rceil> - 1" using c by linarith
  have "(of_nat ?m :: rat) = of_int (\<lceil>?y\<rceil> - 1)"
    using nn by (rule of_nat_nat)
  then have mi: "(of_nat ?m :: rat) = of_int \<lceil>?y\<rceil> - 1"
    by (simp only: of_int_diff of_int_1)
  have my: "of_nat ?m < ?y" "?y \<le> of_nat ?m + 1"
    unfolding mi by linarith+
  from bitLength_bounds [OF m] have bb: "2 ^ (?j - 1) \<le> ?m" "?m < 2 ^ ?j" by auto
  have jpos: "0 < ?j" using m by (subst bitLength.simps) simp
  have lo: "(2::rat) ^ (?j - 1) < ?y"
  proof -
    have "(2::rat) ^ (?j - 1) = of_nat (2 ^ (?j - 1))" by simp
    also have "\<dots> \<le> of_nat ?m" using bb(1) by (subst of_nat_le_iff)
    finally show ?thesis using my(1) by linarith
  qed
  have hi: "?y \<le> (2::rat) ^ ?j"
  proof -
    have "?m + 1 \<le> 2 ^ ?j" using bb(2) by linarith
    then have "of_nat (?m + 1) \<le> (of_nat (2 ^ ?j) :: rat)" by (subst of_nat_le_iff)
    then show ?thesis using my(2) by simp
  qed
  have k: "pow2 (binadeShift x) = 2 ^ (52 + ?j)"
    using False by (simp add: binadeShift_def pow2_def nat_add_distrib)
  have x1: "1 \<le> x * 2 ^ ?j"
    using hi assms by (simp add: pos_divide_le_eq mult.commute)
  have x2: "x * 2 ^ (?j - 1) < 1"
    using lo assms by (simp add: pos_less_divide_eq mult.commute)
  have e2: "(2::rat) ^ (52 + ?j) = 2 ^ 53 * 2 ^ (?j - 1)"
  proof -
    have "52 + ?j = 53 + (?j - 1)" using jpos by linarith
    then show ?thesis by (metis power_add)
  qed
  have a1: "x * 2 ^ (52 + ?j) = 2 ^ 52 * (x * 2 ^ ?j)"
    by (simp only: power_add mult_ac)
  have a2: "x * 2 ^ (52 + ?j) = 2 ^ 53 * (x * 2 ^ (?j - 1))"
    by (simp only: e2 mult_ac)
  have l: "2 ^ 52 \<le> x * 2 ^ (52 + ?j)"
    unfolding a1 using x1 by simp
  have h: "x * 2 ^ (52 + ?j) < 2 ^ 53"
    unfolding a2 using x2 by simp
  show ?thesis
    unfolding k using l h by (rule conjI)
qed

text \<open>
  So, for a positive \<open>x\<close>, \<open>fl64 x\<close> is an integer of 53 bits (or \<open>2\<^sup>5\<^sup>3\<close>) times a power
  of two, and that integer is within one half of the scaled \<open>x\<close>.
\<close>

lemma fl64_nearest:
  assumes "0 < x"
  shows "\<exists>m. fl64 x = of_int m / pow2 (binadeShift x) \<and> 2 ^ 52 \<le> m \<and> m \<le> 2 ^ 53 \<and>
             \<bar>of_int m - x * pow2 (binadeShift x)\<bar> \<le> 1 / 2"
proof -
  let ?y = "x * pow2 (binadeShift x)"
  let ?m = "roundTiesEven ?y"
  have f: "fl64 x = of_int ?m / pow2 (binadeShift x)"
    using assms by (simp add: fl64_def Let_def)
  have near: "\<bar>of_int ?m - ?y\<bar> \<le> 1 / 2" by (rule roundTiesEven_near)
  have r: "2 ^ 52 \<le> ?y" "?y < 2 ^ 53"
    using binadeShift_range [OF assms] by auto
  have "(of_int (2 ^ 52 - 1) :: rat) < of_int ?m"
    using near r(1) by (simp add: abs_if split: if_splits)
  then have lo: "2 ^ 52 \<le> ?m" by (simp only: of_int_less_iff)
  have "(of_int ?m :: rat) < of_int (2 ^ 53 + 1)"
    using near r(2) by (simp add: abs_if split: if_splits)
  then have hi: "?m \<le> 2 ^ 53" by (simp only: of_int_less_iff)
  show ?thesis
    using f lo hi near by blast
qed

section \<open>The progress reader\<close>

lemma getProgress_processing:
  "getMigrationJob jid s = Some job \<Longrightarrow>
     \<exists>p. getProgress jid s = Json200 p \<and>
         processingRecords p =
           int (totalRecords job) - int (completedRecords job) - int (failedRecords job)"
  by (simp add: getProgress_def)

lemma getProgress_example:
  "getProgress ''j''
     (newMemStorage\<lparr>migrationJobs :=
        [(''j'', \<lparr>job_id = ''j'', oldIp = ''1.1.1.1'', newIp = ''2.2.2.2'', totalRecords = 10,
                  completedRecords = 6, failedRecords = 1, job_status = ''running'',
                  createdAt = 0, completedAt = None\<rparr>)]\<rparr>) =
   Json200 \<lparr>p_jobId = ''j'', p_totalRecords = 10, p_completedRecords = 6, p_failedRecords = 1,
            processingRecords = 3, p_status = ''running'', progressPercentage = Some 70\<rparr>"
  by code_simp

lemma fl64_one_tenth: "fl64 (1 / 10) = 3602879701896397 / 36028797018963968"
  by code_simp

text \<open>
  Claim C3. With 40 records of which 23 are completed and none has failed, the exact
  value of the formula is 57.5, which rounds up to 58. The handler computes in doubles:
  23 / 40 is rounded to the double below 0.575, the product with 100 to the double
  57.49999999999999, and \<^verbatim>\<open>Math.round\<close> returns 57.
\<close>

theorem progress_percentage_below_tie:
  "getProgress ''j''
     (newMemStorage\<lparr>migrationJobs :=
        [(''j'', \<lparr>job_id = ''j'', oldIp = ''1.1.1.1'', newIp = ''2.2.2.2'', totalRecords = 40,
                  completedRecords = 23, failedRecords = 0, job_status = ''running'',
                  createdAt = 0, completedAt = None\<rparr>)]\<rparr>) =
   Json200 \<lparr>p_jobId = ''j'', p_totalRecords = 40, p_completedRecords = 23, p_failedRecords = 0,
            processingRecords = 17, p_status = ''running'', progressPercentage = Some 57\<rparr> \<and>
   fl64 (fl64 (23 / 40) * 100) = 8092405580431359 / 140737488355328 \<and>
   specPercentage 40 23 0 = 58"
  by code_simp

section \<open>Starting a migration\<close>

text \<open>
  Claim C4. A request whose \<open>recordIds\<close> is the empty array is answered with status 400
  and the state is left as it was: no job, no record status and no activity entry is
  created, and no processing is started.
\<close>

theorem empty_request_rejected:
  "body_recordIds body = Some [] \<Longrightarrow>
     migrationStart e body s = (Fail 400 ''Missing required parameters'', s, None) \<and>
     migrationTrace e body s = [s]"
  by (simp add: migrationStart_def migrationTrace_def)

theorem empty_request_rejected_witness:
  "migrationStart env0
     \<lparr>body_oldIp = Some ''1.1.1.1'', body_newIp = Some ''2.2.2.2'', body_recordIds = Some []\<rparr>
     newMemStorage =
   (Fail 400 ''Missing required parameters'', newMemStorage, None)"
  using empty_request_rejected
    [of "\<lparr>body_oldIp = Some ''1.1.1.1'', body_newIp = Some ''2.2.2.2'',
          body_recordIds = Some []\<rparr>" env0 newMemStorage]
  by simp

end
